theory Spec2Isabelle
  imports Main
begin

section \<open>The lexer of htc: data model\<close>

text \<open>
  The source is \<^verbatim>\<open>lexer/lexer.go\<close>. A Go \<^verbatim>\<open>string\<close> is a sequence of bytes, modelled
  as a \<^typ>\<open>char list\<close> (an Isabelle \<^typ>\<open>char\<close> is one byte). \<^verbatim>\<open>TokenType\<close> is a Go
  string type, so token types are strings here too.

  The fields \<^verbatim>\<open>position\<close>, \<^verbatim>\<open>readPosition\<close>, \<^verbatim>\<open>line\<close> and \<^verbatim>\<open>tokenPosition\<close> are Go
  \<^verbatim>\<open>int\<close>s that start at zero, are only ever incremented by one (or reset to zero), and
  never decremented. They are modelled as \<^typ>\<open>nat\<close>: a 64-bit \<^verbatim>\<open>int\<close> needs \<open>2^63\<close>
  increments before it wraps, which no scan that returns can perform on an input that
  fits in memory.
\<close>

type_synonym TokenType = string

record Token =
  Type :: TokenType
  Literal :: string
  Line :: nat
  Position :: nat

named_theorems tok_defs \<open>the token type constants\<close>

definition EOF :: TokenType where [tok_defs]: "EOF = ''EOF''"
definition ILLEGAL :: TokenType where [tok_defs]: "ILLEGAL = ''ILLEGAL''"
definition IDENT :: TokenType where [tok_defs]: "IDENT = ''IDENT''"
definition INT_tok :: TokenType where [tok_defs]: "INT_tok = ''INT''"
definition STRING :: TokenType where [tok_defs]: "STRING = ''STRING''"
definition ASSIGN :: TokenType where [tok_defs]: "ASSIGN = ''=''"
definition INCREMENT :: TokenType where [tok_defs]: "INCREMENT = ''++''"
definition DECREMENT :: TokenType where [tok_defs]: "DECREMENT = ''--''"
definition PLUS_EQUALS :: TokenType where [tok_defs]: "PLUS_EQUALS = ''+=''"
definition MINUS_EQUALS :: TokenType where [tok_defs]: "MINUS_EQUALS = ''-=''"
definition PLUS :: TokenType where [tok_defs]: "PLUS = ''+''"
definition MINUS :: TokenType where [tok_defs]: "MINUS = ''-''"
definition ASTERISK :: TokenType where [tok_defs]: "ASTERISK = ''*''"
definition SLASH :: TokenType where [tok_defs]: "SLASH = ''/''"
definition PERCENT :: TokenType where [tok_defs]: "PERCENT = ''%''"
definition BANG :: TokenType where [tok_defs]: "BANG = ''!''"
definition EQ :: TokenType where [tok_defs]: "EQ = ''==''"
definition NEQ :: TokenType where [tok_defs]: "NEQ = ''!=''"
definition LT :: TokenType where [tok_defs]: "LT = ''<''"
definition GT :: TokenType where [tok_defs]: "GT = ''>''"
definition LE :: TokenType where [tok_defs]: "LE = ''<=''"
definition GE :: TokenType where [tok_defs]: "GE = ''>=''"
definition LPAREN :: TokenType where [tok_defs]: "LPAREN = ''(''"
definition RPAREN :: TokenType where [tok_defs]: "RPAREN = '')''"
definition LBRACKET :: TokenType where [tok_defs]: "LBRACKET = ''[''"
definition RBRACKET :: TokenType where [tok_defs]: "RBRACKET = '']''"
definition LBRACE :: TokenType where [tok_defs]: "LBRACE = ''{''"
definition RBRACE :: TokenType where [tok_defs]: "RBRACE = ''}''"
definition COMMA :: TokenType where [tok_defs]: "COMMA = '',''"
definition PERIOD :: TokenType where [tok_defs]: "PERIOD = ''.''"
definition SEMICOLON :: TokenType where [tok_defs]: "SEMICOLON = '';''"
definition IF :: TokenType where [tok_defs]: "IF = ''if''"
definition ELSE :: TokenType where [tok_defs]: "ELSE = ''else''"
definition WHILE :: TokenType where [tok_defs]: "WHILE = ''while''"
definition RETURN :: TokenType where [tok_defs]: "RETURN = ''return''"
definition INT_TYPE :: TokenType where [tok_defs]: "INT_TYPE = ''int''"
definition VOID_TYPE :: TokenType where [tok_defs]: "VOID_TYPE = ''void''"
definition FOR :: TokenType where [tok_defs]: "FOR = ''for''"
definition PRINTF :: TokenType where [tok_defs]: "PRINTF = ''printf''"
definition COMMENT :: TokenType where [tok_defs]: "COMMENT = ''COMMENT''"

record Lexer =
  input :: string
  position :: nat
  readPosition :: nat
  ch :: char
  line :: nat
  tokenPosition :: nat
  errors :: "string list"

text \<open>Go's run-time panics that the lexer could raise: a slice expression out of range.\<close>

datatype panic = SliceBoundsOutOfRange

subsection \<open>Go primitives used by the lexer\<close>

text \<open>
  \<^verbatim>\<open>s[a:b]\<close> on a string panics unless \<open>a \<le> b \<le> len(s)\<close>.
\<close>

definition go_slice :: "string \<Rightarrow> nat \<Rightarrow> nat \<Rightarrow> panic + string" where
  "go_slice s a b =
     (if a \<le> b \<and> b \<le> length s then Inr (take (b - a) (drop a s))
      else Inl SliceBoundsOutOfRange)"

text \<open>
  \<^verbatim>\<open>string(ch)\<close> for a \<^verbatim>\<open>byte\<close> is Go's integer-to-string conversion: the UTF-8 encoding
  of the code point whose number is the byte. Below 128 that is the byte itself; from 128
  to 255 it is the two bytes \<open>0xC0 + n div 64\<close>, \<open>0x80 + n mod 64\<close>.
\<close>

definition go_string :: "char \<Rightarrow> string" where
  "go_string c =
     (if (of_char c :: nat) < 128 then [c]
      else [char_of (192 + (of_char c :: nat) div 64), char_of (128 + (of_char c :: nat) mod 64)])"

text \<open>The verb \<^verbatim>\<open>%d\<close> of \<^verbatim>\<open>fmt.Sprintf\<close> on a non-negative integer: its decimal digits.\<close>

fun sprint_d :: "nat \<Rightarrow> string" where
  "sprint_d n =
     (if n < 10 then [char_of (48 + n)]
      else sprint_d (n div 10) @ [char_of (48 + n mod 10)])"

declare sprint_d.simps [simp del]

text \<open>
  \<^verbatim>\<open>unicode.IsLetter\<close> belongs to Go's standard library. A byte converted to a rune is a
  code point of Latin-1, where the library answers from its property table: the letters
  are A-Z, a-z, U+00AA, U+00B5, U+00BA, U+00C0-U+00D6, U+00D8-U+00F6 and U+00F8-U+00FF.
\<close>

definition unicode_IsLetter :: "char \<Rightarrow> bool" where
  "unicode_IsLetter c =
     (let n = (of_char c :: nat) in
        (65 \<le> n \<and> n \<le> 90) \<or> (97 \<le> n \<and> n \<le> 122) \<or> n = 170 \<or> n = 181 \<or> n = 186 \<or>
        (192 \<le> n \<and> n \<le> 214) \<or> (216 \<le> n \<and> n \<le> 246) \<or> (248 \<le> n \<and> n \<le> 255))"

section \<open>The lexer\<close>

definition isLetter :: "char \<Rightarrow> bool" where
  "isLetter c = (unicode_IsLetter c \<or> c = CHR ''_'')"

definition isDigit :: "char \<Rightarrow> bool" where
  "isDigit c = (48 \<le> (of_char c :: nat) \<and> (of_char c :: nat) \<le> 57)"

definition lookupIdent :: "string \<Rightarrow> TokenType" where
  "lookupIdent ident =
     (if ident = ''if'' then IF
      else if ident = ''else'' then ELSE
      else if ident = ''while'' then WHILE
      else if ident = ''return'' then RETURN
      else if ident = ''int'' then INT_TYPE
      else if ident = ''void'' then VOID_TYPE
      else if ident = ''for'' then FOR
      else if ident = ''printf'' then PRINTF
      else IDENT)"

definition newToken :: "TokenType \<Rightarrow> char \<Rightarrow> nat \<Rightarrow> nat \<Rightarrow> Token" where
  "newToken tokenType c ln pos =
     \<lparr>Type = tokenType, Literal = go_string c, Line = ln, Position = pos\<rparr>"

definition readChar :: "Lexer \<Rightarrow> Lexer" where
  "readChar l =
     l\<lparr>ch := (if readPosition l \<ge> length (input l) then CHR 0x00
              else input l ! readPosition l),
       position := readPosition l,
       readPosition := readPosition l + 1,
       tokenPosition := tokenPosition l + 1\<rparr>"

definition peekChar :: "Lexer \<Rightarrow> char" where
  "peekChar l =
     (if readPosition l \<ge> length (input l) then CHR 0x00 else input l ! readPosition l)"

definition NewLexer :: "string \<Rightarrow> Lexer" where
  "NewLexer inp =
     readChar \<lparr>input = inp, position = 0, readPosition = 0, ch = CHR 0x00, line = 1,
               tokenPosition = 0, errors = []\<rparr>"

definition addError :: "Lexer \<Rightarrow> string \<Rightarrow> Lexer" where
  "addError l msg =
     l\<lparr>errors := errors l @
         [''['' @ sprint_d (line l) @ '':'' @ sprint_d (tokenPosition l) @ ''] '' @ msg]\<rparr>"

definition Errors :: "Lexer \<Rightarrow> string list" where
  "Errors l = errors l"

definition HasErrors :: "Lexer \<Rightarrow> bool" where
  "HasErrors l = (length (errors l) \<noteq> 0)"

subsection \<open>The loops that stop at the end of the input\<close>

text \<open>
  \<^verbatim>\<open>skipWhitespace\<close>, \<^verbatim>\<open>readIdentifier\<close> and \<^verbatim>\<open>readNumber\<close> loop while the current byte
  belongs to a class that excludes the zero byte, so they stop at the latest when the
  input is exhausted. They are total functions.
\<close>

definition isSpace :: "char \<Rightarrow> bool" where
  "isSpace c = (c = CHR '' '' \<or> c = CHR 0x09 \<or> c = CHR 0x0D)"

definition remaining :: "Lexer \<Rightarrow> nat" where
  "remaining l = length (input l) - readPosition l"

function skipWhitespace :: "Lexer \<Rightarrow> Lexer" where
  "skipWhitespace l = (if isSpace (ch l) then skipWhitespace (readChar l) else l)"
  by pat_completeness auto
termination
  by (relation "measure (\<lambda>l. remaining l + (if isSpace (ch l) then 1 else 0))")
     (auto simp: readChar_def remaining_def isSpace_def)

declare skipWhitespace.simps [simp del]

function readIdentifier_loop :: "Lexer \<Rightarrow> Lexer" where
  "readIdentifier_loop l = (if isLetter (ch l) then readIdentifier_loop (readChar l) else l)"
  by pat_completeness auto
termination
  by (relation "measure (\<lambda>l. remaining l + (if isLetter (ch l) then 1 else 0))")
     (auto simp: readChar_def remaining_def isLetter_def unicode_IsLetter_def)

declare readIdentifier_loop.simps [simp del]

definition readIdentifier :: "Lexer \<Rightarrow> panic + string \<times> Lexer" where
  "readIdentifier l =
     (let pos = position l; l' = readIdentifier_loop l in
        case go_slice (input l') pos (position l') of
          Inl e \<Rightarrow> Inl e
        | Inr s \<Rightarrow> Inr (s, l'))"

function readNumber_loop :: "Lexer \<Rightarrow> Lexer" where
  "readNumber_loop l = (if isDigit (ch l) then readNumber_loop (readChar l) else l)"
  by pat_completeness auto
termination
  by (relation "measure (\<lambda>l. remaining l + (if isDigit (ch l) then 1 else 0))")
     (auto simp: readChar_def remaining_def isDigit_def)

declare readNumber_loop.simps [simp del]

definition readNumber :: "Lexer \<Rightarrow> panic + string \<times> Lexer" where
  "readNumber l =
     (let pos = position l; l' = readNumber_loop l in
        case go_slice (input l') pos (position l') of
          Inl e \<Rightarrow> Inl e
        | Inr s \<Rightarrow> Inr (s, l'))"

subsection \<open>The loops that do not test for the end of the input\<close>

text \<open>
  \<^verbatim>\<open>readLineComment\<close>, \<^verbatim>\<open>readBlockComment\<close> and \<^verbatim>\<open>readString\<close> loop until they see a
  particular byte and never compare the current byte with zero. Their loops are partial
  functions: \<open>None\<close> is a loop that does not return.
\<close>

partial_function (option) readLineComment_loop :: "Lexer \<Rightarrow> Lexer option" where
  "readLineComment_loop l =
     (if ch l \<noteq> CHR 0x0D \<and> ch l \<noteq> CHR 0x0A then readLineComment_loop (readChar l)
      else Some l)"

declare readLineComment_loop.simps [code]

definition readLineComment :: "Lexer \<Rightarrow> (panic + string \<times> Lexer) option" where
  "readLineComment l =
     (let pos = position l in
        case readLineComment_loop l of
          None \<Rightarrow> None
        | Some l' \<Rightarrow>
            Some (case go_slice (input l') pos (position l') of
                    Inl e \<Rightarrow> Inl e
                  | Inr s \<Rightarrow> Inr (s, l')))"

partial_function (option) readBlockComment_loop :: "Lexer \<Rightarrow> Lexer option" where
  "readBlockComment_loop l =
     (if ch l = CHR ''*'' \<and> peekChar l = CHR ''/'' then Some l
      else if ch l = CHR 0x0A then readBlockComment_loop (readChar (l\<lparr>line := line l + 1\<rparr>))
      else readBlockComment_loop (readChar l))"

declare readBlockComment_loop.simps [code]

definition readBlockComment :: "Lexer \<Rightarrow> (panic + string \<times> Lexer) option" where
  "readBlockComment l =
     (let pos = position l in
        case readBlockComment_loop l of
          None \<Rightarrow> None
        | Some l1 \<Rightarrow>
            (let l' = readChar (readChar l1) in
               Some (case go_slice (input l') pos (position l') of
                       Inl e \<Rightarrow> Inl e
                     | Inr s \<Rightarrow> Inr (s, l'))))"

text \<open>
  The loop of \<^verbatim>\<open>readString\<close> leaves by \<^verbatim>\<open>return\<close> with an error at a line feed, or by
  its condition at a double quote; the flag of the result says which.
\<close>

partial_function (option) readString_loop :: "Lexer \<Rightarrow> (bool \<times> Lexer) option" where
  "readString_loop l =
     (if ch l \<noteq> CHR 0x22 then
        (if ch l = CHR 0x0A then Some (True, l) else readString_loop (readChar l))
      else Some (False, l))"

declare readString_loop.simps [code]

definition readString :: "Lexer \<Rightarrow> (panic + string \<times> string option \<times> Lexer) option" where
  "readString l =
     (let pos = position l in
        case readString_loop (readChar l) of
          None \<Rightarrow> None
        | Some (unterminated, l') \<Rightarrow>
            Some (case go_slice (input l') (pos + 1) (position l') of
                    Inl e \<Rightarrow> Inl e
                  | Inr s \<Rightarrow>
                      Inr (s, if unterminated then Some ''non-terminated string'' else None, l')))"

subsection \<open>\<^verbatim>\<open>NextToken\<close> and \<^verbatim>\<open>Tokens\<close>\<close>

text \<open>
  The two-character operators: the first byte is kept, \<^verbatim>\<open>readChar\<close> moves to the second,
  and the token is built from both, with the line and \<^verbatim>\<open>tokenPosition\<close> after that move.
\<close>

definition twoCharToken :: "TokenType \<Rightarrow> Lexer \<Rightarrow> Token \<times> Lexer" where
  "twoCharToken tokenType l =
     (let c = ch l; l1 = readChar l in
        (\<lparr>Type = tokenType, Literal = go_string c @ go_string (ch l1), Line = line l1,
          Position = tokenPosition l1\<rparr>, l1))"

text \<open>
  One pass through the \<^verbatim>\<open>switch\<close> for a current byte other than the line feed. The
  result is the token, the lexer, and whether the case left \<^verbatim>\<open>NextToken\<close> by its own
  \<^verbatim>\<open>return\<close> (identifiers and numbers) instead of falling out of the loop to the final
  \<^verbatim>\<open>readChar\<close>. The variable \<^verbatim>\<open>tok\<close> starts as the zero \<^verbatim>\<open>Token\<close>, and the case for the
  zero byte assigns its type and literal only.
\<close>

definition switchToken :: "Lexer \<Rightarrow> (panic + bool \<times> Token \<times> Lexer) option" where
  "switchToken l =
     (let c = ch l in
      if c = CHR ''='' then
        (if peekChar l = CHR ''='' then Some (Inr (False, twoCharToken EQ l))
         else Some (Inr (False, newToken ASSIGN c (line l) (position l), l)))
      else if c = CHR ''+'' then
        (if peekChar l = CHR ''+'' then Some (Inr (False, twoCharToken INCREMENT l))
         else if peekChar l = CHR ''='' then Some (Inr (False, twoCharToken PLUS_EQUALS l))
         else Some (Inr (False, newToken PLUS c (line l) (position l), l)))
      else if c = CHR ''-'' then
        (if peekChar l = CHR ''-'' then Some (Inr (False, twoCharToken DECREMENT l))
         else if peekChar l = CHR ''='' then Some (Inr (False, twoCharToken MINUS_EQUALS l))
         else Some (Inr (False, newToken MINUS c (line l) (position l), l)))
      else if c = CHR ''*'' then Some (Inr (False, newToken ASTERISK c (line l) (position l), l))
      else if c = CHR ''/'' then
        (if peekChar l = CHR ''/'' then
           (case readLineComment l of
              None \<Rightarrow> None
            | Some (Inl e) \<Rightarrow> Some (Inl e)
            | Some (Inr (literal, l')) \<Rightarrow>
                Some (Inr (False, \<lparr>Type = COMMENT, Literal = literal, Line = line l',
                                   Position = tokenPosition l'\<rparr>, l')))
         else if peekChar l = CHR ''*'' then
           (case readBlockComment l of
              None \<Rightarrow> None
            | Some (Inl e) \<Rightarrow> Some (Inl e)
            | Some (Inr (literal, l')) \<Rightarrow>
                Some (Inr (False, \<lparr>Type = COMMENT, Literal = literal, Line = line l',
                                   Position = tokenPosition l'\<rparr>, l')))
         else Some (Inr (False, newToken SLASH c (line l) (position l), l)))
      else if c = CHR ''%'' then Some (Inr (False, newToken PERCENT c (line l) (position l), l))
      else if c = CHR ''!'' then
        (if peekChar l = CHR ''='' then Some (Inr (False, twoCharToken NEQ l))
         else Some (Inr (False, newToken BANG c (line l) (position l), l)))
      else if c = CHR ''<'' then
        (if peekChar l = CHR ''='' then Some (Inr (False, twoCharToken LE l))
         else Some (Inr (False, newToken LT c (line l) (position l), l)))
      else if c = CHR ''>'' then
        (if peekChar l = CHR ''='' then Some (Inr (False, twoCharToken GE l))
         else Some (Inr (False, newToken GT c (line l) (position l), l)))
      else if c = CHR ''('' then Some (Inr (False, newToken LPAREN c (line l) (position l), l))
      else if c = CHR '')'' then Some (Inr (False, newToken RPAREN c (line l) (position l), l))
      else if c = CHR ''{'' then Some (Inr (False, newToken LBRACE c (line l) (position l), l))
      else if c = CHR ''}'' then Some (Inr (False, newToken RBRACE c (line l) (position l), l))
      else if c = CHR ''['' then Some (Inr (False, newToken LBRACKET c (line l) (position l), l))
      else if c = CHR '']'' then Some (Inr (False, newToken RBRACKET c (line l) (position l), l))
      else if c = CHR '','' then Some (Inr (False, newToken COMMA c (line l) (position l), l))
      else if c = CHR ''.'' then Some (Inr (False, newToken PERIOD c (line l) (position l), l))
      else if c = CHR '';'' then Some (Inr (False, newToken SEMICOLON c (line l) (position l), l))
      else if c = CHR 0x00 then
        Some (Inr (False, \<lparr>Type = EOF, Literal = [], Line = 0, Position = 0\<rparr>, l))
      else if c = CHR 0x22 then
        (case readString l of
           None \<Rightarrow> None
         | Some (Inl e) \<Rightarrow> Some (Inl e)
         | Some (Inr (literal, err, l1)) \<Rightarrow>
             (let l' = (case err of None \<Rightarrow> l1 | Some msg \<Rightarrow> addError l1 msg) in
                Some (Inr (False, \<lparr>Type = STRING, Literal = literal, Line = line l',
                                   Position = tokenPosition l'\<rparr>, l'))))
      else if isLetter c then
        (case readIdentifier l of
           Inl e \<Rightarrow> Some (Inl e)
         | Inr (literal, l') \<Rightarrow>
             Some (Inr (True, \<lparr>Type = lookupIdent literal, Literal = literal, Line = line l',
                               Position = tokenPosition l'\<rparr>, l')))
      else if isDigit c then
        (case readNumber l of
           Inl e \<Rightarrow> Some (Inl e)
         | Inr (literal, l') \<Rightarrow>
             Some (Inr (True, \<lparr>Type = INT_tok, Literal = literal, Line = line l',
                               Position = tokenPosition l'\<rparr>, l')))
      else Some (Inr (False, newToken ILLEGAL c (line l) (position l), l)))"

text \<open>
  The \<^verbatim>\<open>for\<close> loop of \<^verbatim>\<open>NextToken\<close> repeats only after the case for the line feed, which
  consumes at least the line feed; every other case leaves the loop.
\<close>

definition newlineStep :: "Lexer \<Rightarrow> Lexer" where
  "newlineStep l = (skipWhitespace (readChar (l\<lparr>line := line l + 1\<rparr>)))\<lparr>tokenPosition := 0\<rparr>"

function NextToken_loop :: "Lexer \<Rightarrow> (panic + Token \<times> Lexer) option" where
  "NextToken_loop l =
     (if ch l = CHR 0x0A then NextToken_loop (newlineStep l)
      else case switchToken l of
             None \<Rightarrow> None
           | Some (Inl e) \<Rightarrow> Some (Inl e)
           | Some (Inr (returned, tok, l')) \<Rightarrow>
               Some (Inr (tok, if returned then l' else readChar l')))"
  by pat_completeness auto
termination
proof (relation "measure (\<lambda>l. remaining l + (if ch l = CHR 0x0A then 1 else 0))")
  show "wf (measure (\<lambda>l. remaining l + (if ch l = CHR 0x0A then 1 else 0)))"
    by simp
next
  fix l :: Lexer
  assume nl: "ch l = CHR 0x0A"
  have skip_le: "remaining (skipWhitespace k) \<le> remaining k" for k
  proof (induction k rule: skipWhitespace.induct)
    case (1 k)
    show ?case
    proof (cases "isSpace (ch k)")
      case True
      have "remaining (readChar k) \<le> remaining k"
        by (simp add: remaining_def readChar_def)
      with True "1.IH" show ?thesis
        by (simp add: skipWhitespace.simps [of k])
    next
      case False
      then show ?thesis by (simp add: skipWhitespace.simps [of k])
    qed
  qed
  define k where "k = readChar (l\<lparr>line := line l + 1\<rparr>)"
  have step: "newlineStep l = (skipWhitespace k)\<lparr>tokenPosition := 0\<rparr>"
    by (simp add: newlineStep_def k_def)
  show "(newlineStep l, l) \<in> measure (\<lambda>l. remaining l + (if ch l = CHR 0x0A then 1 else 0))"
  proof (cases "readPosition l < length (input l)")
    case True
    then have "remaining k < remaining l"
      by (simp add: k_def remaining_def readChar_def)
    with skip_le [of k] have "remaining (newlineStep l) < remaining l"
      by (simp add: step remaining_def)
    with nl show ?thesis by simp
  next
    case False
    then have "ch k = CHR 0x00"
      by (simp add: k_def readChar_def)
    then have "skipWhitespace k = k"
      by (simp add: skipWhitespace.simps [of k] isSpace_def)
    with False \<open>ch k = CHR 0x00\<close> have "remaining (newlineStep l) = 0" "ch (newlineStep l) = CHR 0x00"
      by (simp_all add: step remaining_def k_def readChar_def)
    with nl show ?thesis by simp
  qed
qed

declare NextToken_loop.simps [simp del]

definition NextToken :: "Lexer \<Rightarrow> (panic + Token \<times> Lexer) option" where
  "NextToken l = NextToken_loop (skipWhitespace l)"

text \<open>
  \<^verbatim>\<open>Tokens\<close> calls \<^verbatim>\<open>NextToken\<close> until a token of type \<^verbatim>\<open>EOF\<close> has been appended.
\<close>

partial_function (option) Tokens_loop :: "Token list \<Rightarrow> Lexer \<Rightarrow> (panic + Token list \<times> Lexer) option"
  where
  "Tokens_loop result l =
     (case NextToken l of
        None \<Rightarrow> None
      | Some (Inl e) \<Rightarrow> Some (Inl e)
      | Some (Inr (tok, l')) \<Rightarrow>
          (if Type tok = EOF then Some (Inr (result @ [tok], l'))
           else Tokens_loop (result @ [tok]) l'))"

declare Tokens_loop.simps [code]

definition Tokens :: "Lexer \<Rightarrow> (panic + Token list \<times> Lexer) option" where
  "Tokens l = Tokens_loop [] l"

section \<open>Notions used in the statements\<close>

text \<open>
  A lexer is well formed when the current byte is the byte under \<^verbatim>\<open>position\<close> (the zero
  byte past the end) and \<^verbatim>\<open>readPosition\<close> is the next index: the state that
  \<^verbatim>\<open>readChar\<close> leaves behind.
\<close>

definition wellFormed :: "Lexer \<Rightarrow> bool" where
  "wellFormed l \<longleftrightarrow>
     readPosition l = position l + 1 \<and>
     ch l = (if position l < length (input l) then input l ! position l else CHR 0x00)"

text \<open>The well-formed lexer over the input of \<open>l\<close> with the cursor on index \<open>p\<close>.\<close>

definition cursorAt :: "Lexer \<Rightarrow> nat \<Rightarrow> nat \<Rightarrow> nat \<Rightarrow> Lexer" where
  "cursorAt l p ln tp =
     l\<lparr>position := p, readPosition := p + 1,
       ch := (if p < length (input l) then input l ! p else CHR 0x00),
       line := ln, tokenPosition := tp\<rparr>"

text \<open>The input is exhausted: the cursor is at or past the end, on the zero byte.\<close>

definition exhausted :: "Lexer \<Rightarrow> bool" where
  "exhausted l \<longleftrightarrow>
     readPosition l = position l + 1 \<and> length (input l) \<le> position l \<and> ch l = CHR 0x00"

text \<open>
  The invariant as the specification words it: once the input is exhausted,
  \<^verbatim>\<open>position\<close> equals the length of the input.
\<close>

definition exhausted_spec :: "Lexer \<Rightarrow> bool" where
  "exhausted_spec l \<longleftrightarrow>
     readPosition l = position l + 1 \<and> position l = length (input l) \<and> ch l = CHR 0x00"

text \<open>The byte classes of the specification and of the Latin-1 letters beyond ASCII.\<close>

definition asciiLetter :: "char \<Rightarrow> bool" where
  "asciiLetter c \<longleftrightarrow>
     (65 \<le> (of_char c :: nat) \<and> (of_char c :: nat) \<le> 90) \<or>
     (97 \<le> (of_char c :: nat) \<and> (of_char c :: nat) \<le> 122)"

definition latin1Letter :: "char \<Rightarrow> bool" where
  "latin1Letter c \<longleftrightarrow>
     (of_char c :: nat) = 170 \<or> (of_char c :: nat) = 181 \<or> (of_char c :: nat) = 186 \<or>
     (192 \<le> (of_char c :: nat) \<and> (of_char c :: nat) \<le> 214) \<or>
     (216 \<le> (of_char c :: nat) \<and> (of_char c :: nat) \<le> 246) \<or>
     (248 \<le> (of_char c :: nat) \<and> (of_char c :: nat) \<le> 255)"

definition identifierByte :: "char \<Rightarrow> bool" where
  "identifierByte c \<longleftrightarrow> asciiLetter c \<or> c = CHR ''_'' \<or> latin1Letter c"

definition oneCharTokens :: string where
  "oneCharTokens = ''=+-*/%!<>(){}[],.;''"

definition twoCharOperators :: "string list" where
  "twoCharOperators = [''=='', ''!='', ''<='', ''>='', ''++'', ''--'', ''+='', ''-='']"

definition keywordTable :: "string list" where
  "keywordTable = [''if'', ''else'', ''while'', ''return'', ''int'', ''void'', ''for'', ''printf'']"

text \<open>The bytes some case of the \<^verbatim>\<open>switch\<close> recognises, white space included.\<close>

definition recognized :: "char \<Rightarrow> bool" where
  "recognized c \<longleftrightarrow>
     isSpace c \<or> c = CHR 0x0A \<or> c \<in> set oneCharTokens \<or> c = CHR 0x00 \<or> c = CHR 0x22 \<or>
     isLetter c \<or> isDigit c"

text \<open>The maximal run of identifier bytes that starts under the cursor.\<close>

definition identifierRun :: "Lexer \<Rightarrow> string" where
  "identifierRun l = takeWhile isLetter (drop (position l) (input l))"

text \<open>No \<open>*/\<close> occurs in a string.\<close>

fun noClose :: "string \<Rightarrow> bool" where
  "noClose (c # d # s) = ((c \<noteq> CHR ''*'' \<or> d \<noteq> CHR ''/'') \<and> noClose (d # s))"
| "noClose s = True"

text \<open>
  The lexer \<open>l\<close> over the input in which the byte at index \<open>k\<close> is replaced by \<open>y\<close>, and
  the cursor having passed index \<open>k\<close>.
\<close>

definition patch :: "nat \<Rightarrow> char \<Rightarrow> Lexer \<Rightarrow> Lexer" where
  "patch k y l = l\<lparr>input := (input l)[k := y]\<rparr>"

definition passed :: "nat \<Rightarrow> Lexer \<Rightarrow> bool" where
  "passed k l \<longleftrightarrow> k < position l \<and> k < readPosition l"

text \<open>What the repository's tests compare, and the inputs of two of them.\<close>

definition typesAndLiterals :: "(panic + Token list \<times> Lexer) option \<Rightarrow> (TokenType \<times> string) list" where
  "typesAndLiterals r =
     (case r of Some (Inr (toks, l)) \<Rightarrow> map (\<lambda>t. (Type t, Literal t)) toks | _ \<Rightarrow> [])"

definition loggedErrors :: "(panic + Token list \<times> Lexer) option \<Rightarrow> string list" where
  "loggedErrors r = (case r of Some (Inr (toks, l)) \<Rightarrow> Errors l | _ \<Rightarrow> [])"

definition testStringsInput :: string where
  "testStringsInput =
     [CHR 0x0A, CHR 0x09, CHR 0x09, CHR 0x22] @ ''Test one '' @
     [CHR 0x22, CHR 0x0A, CHR 0x09, CHR 0x09, CHR 0x22] @
     ''another '' @ [CHR 0x5C] @ ''ttest '' @ [CHR 0x5C] @ ''n'' @
     [CHR 0x22, CHR 0x0A, CHR 0x09, CHR 0x09, CHR 0x22] @ ''a final test'' @
     [CHR 0x0A, CHR 0x09, CHR 0x09, CHR 0x22] @ ''test'' @ [CHR 0x22] @ '',i'' @
     [CHR 0x0A, CHR 0x09, CHR 0x09, CHR 0x22, CHR 0x22, CHR 0x0A, CHR 0x09, CHR 0x09]"

definition testCommentsInput :: string where
  "testCommentsInput =
     [CHR 0x0A, CHR 0x09] @ ''int i = 0;'' @ [CHR 0x0A, CHR 0x09] @ ''// This is a comment'' @
     [CHR 0x0A, CHR 0x09] @ ''/* a!=i;'' @ [CHR 0x0A, CHR 0x09] @ ''+-*%/.'' @
     [CHR 0x0A, CHR 0x09] @ ''void'' @ [CHR 0x0A, CHR 0x09] @ ''[]*/'' @ [CHR 0x0A, CHR 0x09]"

section \<open>The tests of the repository\<close>

text \<open>
  \<^verbatim>\<open>TestLexerStrings\<close> and \<^verbatim>\<open>TestLexerComments\<close> of \<^verbatim>\<open>lexer_test.go\<close> compare the types and
  literals of the tokens, and the first of them the one logged error. The model gives what
  they expect on their inputs.
\<close>

lemma TestLexerStrings:
  "typesAndLiterals (Tokens (NewLexer testStringsInput)) =
     [(STRING, ''Test one ''),
      (STRING, ''another '' @ [CHR 0x5C] @ ''ttest '' @ [CHR 0x5C] @ ''n''),
      (STRING, ''a final test''), (STRING, ''test''), (COMMA, '',''), (IDENT, ''i''),
      (STRING, []), (EOF, [])]"
  "loggedErrors (Tokens (NewLexer testStringsInput)) = [''[4:13] non-terminated string'']"
  by code_simp+

lemma TestLexerComments:
  "typesAndLiterals (Tokens (NewLexer testCommentsInput)) =
     [(INT_TYPE, ''int''), (IDENT, ''i''), (ASSIGN, ''=''), (INT_tok, ''0''), (SEMICOLON, '';''),
      (COMMENT, ''// This is a comment''),
      (COMMENT, ''/* a!=i;'' @ [CHR 0x0A, CHR 0x09] @ ''+-*%/.'' @ [CHR 0x0A, CHR 0x09] @
                ''void'' @ [CHR 0x0A, CHR 0x09] @ ''[]*/''),
      (EOF, [])]"
  by code_simp

section \<open>The scanner on concrete inputs\<close>

text \<open>
  C2. An unterminated string: on the input of the four bytes double quote, \<open>a\<close>, line
  feed, \<open>b\<close>, the first call of \<^verbatim>\<open>NextToken\<close> returns the \<^verbatim>\<open>STRING\<close> token \<open>a\<close> and logs
  the one error \<open>[1:3] non-terminated string\<close>, as the claim says. But the call does
  consume the line feed: \<^verbatim>\<open>readString\<close> stops on it (position 2), and the \<^verbatim>\<open>readChar\<close>
  that ends \<^verbatim>\<open>NextToken\<close> steps over it, so the call returns with \<open>position = 3\<close> and the
  current byte \<open>b\<close>, and \<open>line\<close> is still 1. The claim says the line feed is left for the
  next call.
\<close>

theorem unterminated_string_consumes_newline:
  "NextToken (NewLexer [CHR 0x22, CHR ''a'', CHR 0x0A, CHR ''b'']) =
     Some (Inr (\<lparr>Type = STRING, Literal = ''a'', Line = 1, Position = 3\<rparr>,
                \<lparr>input = [CHR 0x22, CHR ''a'', CHR 0x0A, CHR ''b''], position = 3,
                 readPosition = 4, ch = CHR ''b'', line = 1, tokenPosition = 4,
                 errors = [''[1:3] non-terminated string'']\<rparr>))"
  by code_simp

text \<open>
  C3. The \<^verbatim>\<open>Position\<close> of a token is not its 1-based column. On the input \<open>x==\<close>, line
  feed, \<open>;ab\<close>: the identifier \<open>x\<close> starts in column 1 and gets 2, the value of
  \<^verbatim>\<open>tokenPosition\<close> after it was read; \<open>==\<close> starts in column 2 and gets 3; the
  semicolon is the first byte of line 2 and gets 4, its byte offset in the whole input
  (\<^verbatim>\<open>newToken\<close> is passed \<^verbatim>\<open>l.position\<close>); \<open>ab\<close> starts in column 2 of line 2 and gets 3.
\<close>

theorem token_position_is_not_the_column:
  "Tokens (NewLexer [CHR ''x'', CHR ''='', CHR ''='', CHR 0x0A, CHR '';'', CHR ''a'', CHR ''b'']) =
     Some (Inr ([\<lparr>Type = IDENT, Literal = ''x'', Line = 1, Position = 2\<rparr>,
                 \<lparr>Type = EQ, Literal = ''=='', Line = 1, Position = 3\<rparr>,
                 \<lparr>Type = SEMICOLON, Literal = '';'', Line = 2, Position = 4\<rparr>,
                 \<lparr>Type = IDENT, Literal = ''ab'', Line = 2, Position = 3\<rparr>,
                 \<lparr>Type = EOF, Literal = [], Line = 0, Position = 0\<rparr>],
                \<lparr>input = [CHR ''x'', CHR ''='', CHR ''='', CHR 0x0A, CHR '';'', CHR ''a'', CHR ''b''],
                 position = 8, readPosition = 9, ch = CHR 0x00, line = 2, tokenPosition = 4,
                 errors = []\<rparr>))"
  by code_simp

text \<open>
  C4. The line counter misses line feeds. On the input \<open>// c\<close>, line feed, \<open>x\<close>, the line
  feed that ends the line comment is stepped over by the \<^verbatim>\<open>readChar\<close> that ends
  \<^verbatim>\<open>NextToken\<close>, which does not count it: \<open>x\<close> is on line 2 and is labelled line 1, and
  the scan ends with \<open>line = 1\<close> after consuming one line feed. On the input \<open>/*\<close>, line
  feed, \<open>*/\<close>, the comment starts on line 1 and is labelled line 2, the line on which it
  ends.
\<close>

theorem line_counter_misses_line_feeds:
  "Tokens (NewLexer [CHR ''/'', CHR ''/'', CHR '' '', CHR ''c'', CHR 0x0A, CHR ''x'']) =
     Some (Inr ([\<lparr>Type = COMMENT, Literal = ''// c'', Line = 1, Position = 5\<rparr>,
                 \<lparr>Type = IDENT, Literal = ''x'', Line = 1, Position = 7\<rparr>,
                 \<lparr>Type = EOF, Literal = [], Line = 0, Position = 0\<rparr>],
                \<lparr>input = [CHR ''/'', CHR ''/'', CHR '' '', CHR ''c'', CHR 0x0A, CHR ''x''],
                 position = 7, readPosition = 8, ch = CHR 0x00, line = 1, tokenPosition = 8,
                 errors = []\<rparr>)) \<and>
   Tokens (NewLexer [CHR ''/'', CHR ''*'', CHR 0x0A, CHR ''*'', CHR ''/'']) =
     Some (Inr ([\<lparr>Type = COMMENT, Literal = [CHR ''/'', CHR ''*'', CHR 0x0A, CHR ''*'', CHR ''/''],
                  Line = 2, Position = 6\<rparr>,
                 \<lparr>Type = EOF, Literal = [], Line = 0, Position = 0\<rparr>],
                \<lparr>input = [CHR ''/'', CHR ''*'', CHR 0x0A, CHR ''*'', CHR ''/''],
                 position = 7, readPosition = 8, ch = CHR 0x00, line = 2, tokenPosition = 8,
                 errors = []\<rparr>))"
  by code_simp

text \<open>
  C5. The token at the end of the input has type \<^verbatim>\<open>EOF\<close> and an empty literal, but its
  line and position are the zero values of the \<^verbatim>\<open>Token\<close> struct: the case for the zero
  byte assigns the type and the literal only. On the input \<open>a\<close>, line feed, \<open>b\<close>, the
  scanner has reached line 2 and the \<^verbatim>\<open>EOF\<close> token says line 0, position 0.
\<close>

theorem eof_token_has_no_position:
  "Tokens (NewLexer [CHR ''a'', CHR 0x0A, CHR ''b'']) =
     Some (Inr ([\<lparr>Type = IDENT, Literal = ''a'', Line = 1, Position = 2\<rparr>,
                 \<lparr>Type = IDENT, Literal = ''b'', Line = 2, Position = 1\<rparr>,
                 \<lparr>Type = EOF, Literal = [], Line = 0, Position = 0\<rparr>],
                \<lparr>input = [CHR ''a'', CHR 0x0A, CHR ''b''], position = 4, readPosition = 5,
                 ch = CHR 0x00, line = 2, tokenPosition = 2, errors = []\<rparr>))"
  by code_simp

section \<open>Basic facts about the cursor\<close>

lemma readChar_fields [simp]:
  "input (readChar l) = input l"
  "position (readChar l) = readPosition l"
  "readPosition (readChar l) = readPosition l + 1"
  "line (readChar l) = line l"
  "tokenPosition (readChar l) = tokenPosition l + 1"
  "errors (readChar l) = errors l"
  "ch (readChar l) = peekChar l"
  by (simp_all add: readChar_def peekChar_def)

lemma peekChar_line_update [simp]: "peekChar (l\<lparr>line := n\<rparr>) = peekChar l"
  by (simp add: peekChar_def)

lemma peekChar_in_range: "readPosition l < length (input l) \<Longrightarrow> peekChar l = input l ! readPosition l"
  by (simp add: peekChar_def)

lemma peekChar_past_end: "length (input l) \<le> readPosition l \<Longrightarrow> peekChar l = CHR 0x00"
  by (simp add: peekChar_def)

lemma peekChar_in_rest:
  "peekChar l = CHR 0x00 \<or> peekChar l \<in> set (drop (readPosition l) (input l))"
proof (cases "readPosition l < length (input l)")
  case True
  then have "drop (readPosition l) (input l) = input l ! readPosition l # drop (Suc (readPosition l)) (input l)"
    by (simp add: Cons_nth_drop_Suc)
  with True show ?thesis by (simp add: peekChar_def)
next
  case False
  then show ?thesis by (simp add: peekChar_def)
qed

lemma rest_after_readChar:
  "set (drop (readPosition (readChar l)) (input (readChar l))) \<subseteq> set (drop (readPosition l) (input l))"
  by (simp add: set_drop_subset_set_drop)

lemma skipWhitespace_no_space: "\<not> isSpace (ch l) \<Longrightarrow> skipWhitespace l = l"
  by (simp add: skipWhitespace.simps [of l])

lemma NextToken_at_token_start:
  assumes "\<not> isSpace (ch l)" and "ch l \<noteq> CHR 0x0A"
  shows "NextToken l =
           (case switchToken l of
              None \<Rightarrow> None
            | Some (Inl e) \<Rightarrow> Some (Inl e)
            | Some (Inr (returned, tok, l')) \<Rightarrow>
                Some (Inr (tok, if returned then l' else readChar l')))"
  using assms by (simp add: NextToken_def skipWhitespace_no_space NextToken_loop.simps [of l])

lemma Tokens_None: "NextToken l = None \<Longrightarrow> Tokens l = None"
  by (simp add: Tokens_def Tokens_loop.simps [of "[]" l])

section \<open>Loops that never return\<close>

text \<open>
  When neither the current byte nor any byte still to be read is a carriage return or a
  line feed, the loop of \<^verbatim>\<open>readLineComment\<close> never leaves: past the end of the input
  \<^verbatim>\<open>readChar\<close> keeps delivering the zero byte, which the loop condition accepts.
\<close>

lemma readLineComment_loop_diverges:
  assumes "ch l \<noteq> CHR 0x0D" and "ch l \<noteq> CHR 0x0A"
    and "CHR 0x0D \<notin> set (drop (readPosition l) (input l))"
    and "CHR 0x0A \<notin> set (drop (readPosition l) (input l))"
  shows "readLineComment_loop l = None"
proof -
  define Q where "Q k \<longleftrightarrow> ch k \<noteq> CHR 0x0D \<and> ch k \<noteq> CHR 0x0A \<and>
      CHR 0x0D \<notin> set (drop (readPosition k) (input k)) \<and>
      CHR 0x0A \<notin> set (drop (readPosition k) (input k))" for k :: Lexer
  have step: "Q (readChar k)" if "Q k" for k :: Lexer
    using that peekChar_in_rest [of k] rest_after_readChar [of k]
    by (auto simp: Q_def)
  have "\<not> Q k" if "readLineComment_loop k = Some k'" for k k'
  proof (rule readLineComment_loop.raw_induct [where P = "\<lambda>k k'. \<not> Q k", OF _ that])
    fix f k k'
    assume IH: "\<And>x y. f x = Some y \<Longrightarrow> \<not> Q x"
      and body: "(if ch k \<noteq> CHR 0x0D \<and> ch k \<noteq> CHR 0x0A then f (readChar k) else Some k) = Some k'"
    show "\<not> Q k"
    proof
      assume "Q k"
      with body have "f (readChar k) = Some k'" by (simp add: Q_def)
      then have "\<not> Q (readChar k)" by (rule IH)
      with \<open>Q k\<close> show False by (simp add: step)
    qed
  qed
  moreover have "Q l" using assms by (simp add: Q_def)
  ultimately show ?thesis by (cases "readLineComment_loop l") auto
qed

text \<open>The same for a block comment when no slash is left to be read.\<close>

lemma readBlockComment_loop_diverges:
  assumes "CHR ''/'' \<notin> set (drop (readPosition l) (input l))"
  shows "readBlockComment_loop l = None"
proof -
  define Q where "Q k \<longleftrightarrow> CHR ''/'' \<notin> set (drop (readPosition k) (input k))" for k :: Lexer
  have peek: "peekChar k \<noteq> CHR ''/''" if "Q k" for k :: Lexer
    using that peekChar_in_rest [of k] by (auto simp: Q_def)
  have step: "Q (readChar k)" "Q (readChar (k\<lparr>line := n\<rparr>))" if "Q k" for k n
    using that set_drop_subset_set_drop [of "readPosition k" "Suc (readPosition k)" "input k"]
    by (auto simp: Q_def readChar_def)
  have "\<not> Q k" if "readBlockComment_loop k = Some k'" for k k'
  proof (rule readBlockComment_loop.raw_induct [where P = "\<lambda>k k'. \<not> Q k", OF _ that])
    fix f k k'
    assume IH: "\<And>x y. f x = Some y \<Longrightarrow> \<not> Q x"
      and body: "(if ch k = CHR ''*'' \<and> peekChar k = CHR ''/'' then Some k
                  else if ch k = CHR 0x0A then f (readChar (k\<lparr>line := line k + 1\<rparr>))
                  else f (readChar k)) = Some k'"
    show "\<not> Q k"
    proof
      assume "Q k"
      show False
      proof (cases "ch k = CHR 0x0A")
        case True
        with body peek [OF \<open>Q k\<close>] have "f (readChar (k\<lparr>line := line k + 1\<rparr>)) = Some k'"
          by simp
        then have "\<not> Q (readChar (k\<lparr>line := line k + 1\<rparr>))" by (rule IH)
        with \<open>Q k\<close> show False by (simp add: step)
      next
        case False
        with body peek [OF \<open>Q k\<close>] have "f (readChar k) = Some k'"
          by simp
        then have "\<not> Q (readChar k)" by (rule IH)
        with \<open>Q k\<close> show False by (simp add: step)
      qed
    qed
  qed
  moreover have "Q l" using assms by (simp add: Q_def)
  ultimately show ?thesis by (cases "readBlockComment_loop l") auto
qed

text \<open>The same for a string when neither a double quote nor a line feed is left.\<close>

lemma readString_loop_diverges:
  assumes "ch l \<noteq> CHR 0x22" and "ch l \<noteq> CHR 0x0A"
    and "CHR 0x22 \<notin> set (drop (readPosition l) (input l))"
    and "CHR 0x0A \<notin> set (drop (readPosition l) (input l))"
  shows "readString_loop l = None"
proof -
  define Q where "Q k \<longleftrightarrow> ch k \<noteq> CHR 0x22 \<and> ch k \<noteq> CHR 0x0A \<and>
      CHR 0x22 \<notin> set (drop (readPosition k) (input k)) \<and>
      CHR 0x0A \<notin> set (drop (readPosition k) (input k))" for k :: Lexer
  have step: "Q (readChar k)" if "Q k" for k :: Lexer
    using that peekChar_in_rest [of k] rest_after_readChar [of k]
    by (auto simp: Q_def)
  have "\<not> Q k" if "readString_loop k = Some r" for k r
  proof (rule readString_loop.raw_induct [where P = "\<lambda>k r. \<not> Q k", OF _ that])
    fix f k r
    assume IH: "\<And>x y. f x = Some y \<Longrightarrow> \<not> Q x"
      and body: "(if ch k \<noteq> CHR 0x22
                  then if ch k = CHR 0x0A then Some (True, k) else f (readChar k)
                  else Some (False, k)) = Some r"
    show "\<not> Q k"
    proof
      assume "Q k"
      with body have "f (readChar k) = Some r" by (simp add: Q_def)
      then have "\<not> Q (readChar k)" by (rule IH)
      with \<open>Q k\<close> show False by (simp add: step)
    qed
  qed
  moreover have "Q l" using assms by (simp add: Q_def)
  ultimately show ?thesis by (cases "readString_loop l") auto
qed

text \<open>
  C1. \<^verbatim>\<open>NextToken\<close> does not return on an input that ends inside a line comment, inside
  a block comment, or inside a string with no line feed: the loops of \<^verbatim>\<open>readLineComment\<close>,
  \<^verbatim>\<open>readBlockComment\<close> and \<^verbatim>\<open>readString\<close> wait for a byte that never comes and do not
  test for the end of the input, so \<^verbatim>\<open>Tokens\<close> returns no sequence at all. (In Go the
  loop spins, incrementing \<^verbatim>\<open>readPosition\<close> for the \<open>2^63\<close> iterations a 64-bit \<^verbatim>\<open>int\<close> takes to
  wrap, where the negative index panics; no token is ever returned.)
\<close>

theorem unterminated_input_never_returns:
  "NextToken (NewLexer ''// c'') = None \<and> Tokens (NewLexer ''// c'') = None \<and>
   NextToken (NewLexer ''/* c'') = None \<and> Tokens (NewLexer ''/* c'') = None \<and>
   NextToken (NewLexer [CHR 0x22, CHR ''c'']) = None \<and>
   Tokens (NewLexer [CHR 0x22, CHR ''c'']) = None"
proof -
  have line_comment: "NextToken (NewLexer ''// c'') = None"
  proof -
    have "readLineComment_loop (NewLexer ''// c'') = None"
      by (rule readLineComment_loop_diverges) (simp_all add: NewLexer_def peekChar_def)
    then have "switchToken (NewLexer ''// c'') = None"
      by (simp add: switchToken_def readLineComment_def NewLexer_def peekChar_def)
    then show ?thesis
      by (simp add: NextToken_at_token_start isSpace_def NewLexer_def peekChar_def)
  qed
  have block_comment: "NextToken (NewLexer ''/* c'') = None"
  proof -
    have "readBlockComment_loop (NewLexer ''/* c'') = None"
      by (rule readBlockComment_loop_diverges) (simp add: NewLexer_def)
    then have "switchToken (NewLexer ''/* c'') = None"
      by (simp add: switchToken_def readBlockComment_def NewLexer_def peekChar_def)
    then show ?thesis
      by (simp add: NextToken_at_token_start isSpace_def NewLexer_def peekChar_def)
  qed
  have string: "NextToken (NewLexer [CHR 0x22, CHR ''c'']) = None"
  proof -
    have "readString_loop (readChar (NewLexer [CHR 0x22, CHR ''c''])) = None"
      by (rule readString_loop_diverges) (simp_all add: NewLexer_def peekChar_def)
    then have "switchToken (NewLexer [CHR 0x22, CHR ''c'']) = None"
      by (simp add: switchToken_def readString_def NewLexer_def peekChar_def)
    then show ?thesis
      by (simp add: NextToken_at_token_start isSpace_def NewLexer_def peekChar_def)
  qed
  from line_comment block_comment string show ?thesis
    by (simp add: Tokens_None)
qed

section \<open>Well-formed lexers\<close>

lemma wellFormed_readChar [simp]: "wellFormed (readChar l)"
  by (simp add: wellFormed_def readChar_def)

lemma wellFormed_update [simp]:
  "wellFormed (l\<lparr>line := n\<rparr>) = wellFormed l"
  "wellFormed (l\<lparr>tokenPosition := n\<rparr>) = wellFormed l"
  "wellFormed (l\<lparr>errors := es\<rparr>) = wellFormed l"
  by (simp_all add: wellFormed_def)

lemma wellFormed_NewLexer [simp]: "wellFormed (NewLexer inp)"
  by (simp add: NewLexer_def)

lemma wellFormed_addError [simp]: "wellFormed (addError l msg) = wellFormed l"
  by (simp add: addError_def)

lemma wellFormed_skipWhitespace: "wellFormed l \<Longrightarrow> wellFormed (skipWhitespace l)"
proof (induction l rule: skipWhitespace.induct)
  case (1 l)
  then show ?case
    by (cases "isSpace (ch l)") (simp_all add: skipWhitespace.simps [of l])
qed

lemma wellFormed_readIdentifier_loop: "wellFormed l \<Longrightarrow> wellFormed (readIdentifier_loop l)"
proof (induction l rule: readIdentifier_loop.induct)
  case (1 l)
  then show ?case
    by (cases "isLetter (ch l)") (simp_all add: readIdentifier_loop.simps [of l])
qed

lemma wellFormed_readNumber_loop: "wellFormed l \<Longrightarrow> wellFormed (readNumber_loop l)"
proof (induction l rule: readNumber_loop.induct)
  case (1 l)
  then show ?case
    by (cases "isDigit (ch l)") (simp_all add: readNumber_loop.simps [of l])
qed

lemma wellFormed_newlineStep [simp]: "wellFormed (newlineStep l)"
  by (simp add: newlineStep_def wellFormed_skipWhitespace)

text \<open>Only the cases for identifiers and numbers leave \<^verbatim>\<open>NextToken\<close> by their own return.\<close>

lemma switchToken_returned:
  assumes "switchToken l = Some (Inr (True, tok, l'))"
  shows "l' = readIdentifier_loop l \<or> l' = readNumber_loop l"
  using assms
  by (simp add: switchToken_def Let_def readIdentifier_def readNumber_def
           split: if_splits option.splits sum.splits prod.splits)

lemma wellFormed_NextToken_loop:
  "wellFormed l \<Longrightarrow> NextToken_loop l = Some (Inr (tok, l')) \<Longrightarrow> wellFormed l'"
proof (induction l rule: NextToken_loop.induct)
  case (1 l)
  show ?case
  proof (cases "ch l = CHR 0x0A")
    case True
    with "1.prems" have "NextToken_loop (newlineStep l) = Some (Inr (tok, l'))"
      by (simp add: NextToken_loop.simps [of l])
    with True show ?thesis
      by (intro "1.IH") simp_all
  next
    case False
    with "1.prems" obtain returned l1 where
      sw: "switchToken l = Some (Inr (returned, tok, l1))" and
      l': "l' = (if returned then l1 else readChar l1)"
      by (auto simp: NextToken_loop.simps [of l] split: option.splits sum.splits)
    show ?thesis
    proof (cases returned)
      case True
      with sw have "l1 = readIdentifier_loop l \<or> l1 = readNumber_loop l"
        by (simp add: switchToken_returned)
      with True l' "1.prems" show ?thesis
        by (auto simp: wellFormed_readIdentifier_loop wellFormed_readNumber_loop)
    next
      case False
      with l' show ?thesis by simp
    qed
  qed
qed

lemma wellFormed_NextToken:
  "wellFormed l \<Longrightarrow> NextToken l = Some (Inr (tok, l')) \<Longrightarrow> wellFormed l'"
  unfolding NextToken_def
  by (rule wellFormed_NextToken_loop [OF wellFormed_skipWhitespace])

section \<open>The end of the input\<close>

lemma NextToken_zero_byte:
  assumes "ch l = CHR 0x00"
  shows "NextToken l = Some (Inr (\<lparr>Type = EOF, Literal = [], Line = 0, Position = 0\<rparr>, readChar l))"
  using assms by (simp add: NextToken_at_token_start isSpace_def switchToken_def)

lemma exhausted_readChar: "length (input l) \<le> readPosition l \<Longrightarrow> exhausted (readChar l)"
  by (simp add: exhausted_def peekChar_past_end)

text \<open>
  C6, as stated, fails. The invariant of the specification holds when \<^verbatim>\<open>NewLexer\<close> has
  primed the cursor on the empty input (\<open>position = 0\<close>, the length), but the first call of
  \<^verbatim>\<open>NextToken\<close> ends with a \<^verbatim>\<open>readChar\<close> that moves \<^verbatim>\<open>position\<close> to 1: \<^verbatim>\<open>readChar\<close>
  advances both indices also when there is nothing left to read.
\<close>

theorem position_passes_the_end:
  "exhausted_spec (NewLexer []) \<and>
   NextToken (NewLexer []) =
     Some (Inr (\<lparr>Type = EOF, Literal = [], Line = 0, Position = 0\<rparr>,
                \<lparr>input = [], position = 1, readPosition = 2, ch = CHR 0x00, line = 1,
                 tokenPosition = 2, errors = []\<rparr>)) \<and>
   \<not> exhausted_spec \<lparr>input = [], position = 1, readPosition = 2, ch = CHR 0x00, line = 1,
                     tokenPosition = 2, errors = []\<rparr>"
  by code_simp

text \<open>
  C6, amended. After every \<^verbatim>\<open>readChar\<close>, \<^verbatim>\<open>readPosition = position + 1\<close>. The
  \<^verbatim>\<open>readChar\<close> that first finds nothing to read leaves \<^verbatim>\<open>position\<close> equal to the length
  of the input and the current byte zero. From then on the input is exhausted in the sense
  that \<^verbatim>\<open>position\<close> is at least the length and the current byte is zero: every call of
  \<^verbatim>\<open>NextToken\<close> returns the \<^verbatim>\<open>EOF\<close> token, keeps the input exhausted and moves
  \<^verbatim>\<open>position\<close> one further. And every call of \<^verbatim>\<open>NextToken\<close> that returns from a
  well-formed lexer leaves \<^verbatim>\<open>readPosition = position + 1\<close>.
\<close>

theorem cursor_invariant:
  "readPosition (readChar l) = position (readChar l) + 1 \<and>
   (readPosition l = length (input l) \<longrightarrow>
      position (readChar l) = length (input l) \<and> exhausted (readChar l)) \<and>
   (exhausted l \<longrightarrow>
      NextToken l = Some (Inr (\<lparr>Type = EOF, Literal = [], Line = 0, Position = 0\<rparr>, readChar l)) \<and>
      exhausted (readChar l) \<and> position (readChar l) = position l + 1) \<and>
   (wellFormed l \<and> NextToken l = Some (Inr (tok, l')) \<longrightarrow> readPosition l' = position l' + 1)"
proof (intro conjI impI)
  show "readPosition (readChar l) = position (readChar l) + 1"
    by simp
next
  assume "readPosition l = length (input l)"
  then show "position (readChar l) = length (input l)" and "exhausted (readChar l)"
    by (simp_all add: exhausted_readChar)
next
  assume ex: "exhausted l"
  then show "NextToken l = Some (Inr (\<lparr>Type = EOF, Literal = [], Line = 0, Position = 0\<rparr>, readChar l))"
    by (simp add: exhausted_def NextToken_zero_byte)
  from ex have "length (input l) \<le> readPosition l"
    by (simp add: exhausted_def)
  then show "exhausted (readChar l)"
    by (rule exhausted_readChar)
  from ex show "position (readChar l) = position l + 1"
    by (simp add: exhausted_def)
next
  assume "wellFormed l \<and> NextToken l = Some (Inr (tok, l'))"
  then have "wellFormed l'"
    by (blast intro: wellFormed_NextToken)
  then show "readPosition l' = position l' + 1"
    by (simp add: wellFormed_def)
qed

theorem cursor_invariant_witness:
  "readPosition (NewLexer ''a'') = length (input (NewLexer ''a'')) \<and>
   position (readChar (NewLexer ''a'')) = length (input (NewLexer ''a'')) \<and>
   exhausted (readChar (NewLexer ''a'')) \<and>
   NextToken (readChar (NewLexer ''a'')) =
     Some (Inr (\<lparr>Type = EOF, Literal = [], Line = 0, Position = 0\<rparr>,
                readChar (readChar (NewLexer ''a'')))) \<and>
   exhausted (readChar (readChar (NewLexer ''a''))) \<and>
   wellFormed (NewLexer ''a'') \<and>
   NextToken (NewLexer ''a'') =
     Some (Inr (\<lparr>Type = IDENT, Literal = ''a'', Line = 1, Position = 2\<rparr>,
                \<lparr>input = ''a'', position = 1, readPosition = 2, ch = CHR 0x00, line = 1,
                 tokenPosition = 2, errors = []\<rparr>)) \<and>
   readPosition \<lparr>input = ''a'', position = 1, readPosition = 2, ch = CHR 0x00, line = 1,
                 tokenPosition = 2, errors = []\<rparr> = 2"
proof -
  have first: "readPosition (NewLexer ''a'') = length (input (NewLexer ''a''))"
    by (simp add: NewLexer_def)
  have wf: "wellFormed (NewLexer ''a'')"
    by simp
  have tok: "NextToken (NewLexer ''a'') =
     Some (Inr (\<lparr>Type = IDENT, Literal = ''a'', Line = 1, Position = 2\<rparr>,
                \<lparr>input = ''a'', position = 1, readPosition = 2, ch = CHR 0x00, line = 1,
                 tokenPosition = 2, errors = []\<rparr>))"
    by code_simp
  note at_start = cursor_invariant [of "NewLexer ''a''"
      "\<lparr>Type = IDENT, Literal = ''a'', Line = 1, Position = 2\<rparr>"
      "\<lparr>input = ''a'', position = 1, readPosition = 2, ch = CHR 0x00, line = 1,
        tokenPosition = 2, errors = []\<rparr>"]
  from at_start first have ex: "exhausted (readChar (NewLexer ''a''))"
    and pos: "position (readChar (NewLexer ''a'')) = length (input (NewLexer ''a''))"
    by simp_all
  note at_end = cursor_invariant [of "readChar (NewLexer ''a'')"]
  from at_end ex have "NextToken (readChar (NewLexer ''a'')) =
     Some (Inr (\<lparr>Type = EOF, Literal = [], Line = 0, Position = 0\<rparr>,
                readChar (readChar (NewLexer ''a''))))"
    and "exhausted (readChar (readChar (NewLexer ''a'')))"
    by simp_all
  with first wf tok ex pos show ?thesis
    by simp
qed

section \<open>Operators and punctuation\<close>

lemma current_byte_in_input:
  assumes "wellFormed l" and "ch l \<noteq> CHR 0x00"
  shows "position l < length (input l)" and "input l ! position l = ch l"
  using assms by (simp_all add: wellFormed_def split: if_splits)

lemma next_byte_in_input:
  assumes "wellFormed l" and "peekChar l \<noteq> CHR 0x00"
  shows "position l + 1 < length (input l)" and "input l ! (position l + 1) = peekChar l"
  using assms by (simp_all add: wellFormed_def peekChar_def split: if_splits)

lemma slice_one:
  assumes "wellFormed l" and "ch l \<noteq> CHR 0x00"
  shows "go_slice (input l) (position l) (position l + 1) = Inr [ch l]"
proof -
  from assms have "position l < length (input l)" and "input l ! position l = ch l"
    by (rule current_byte_in_input)+
  then have "take 1 (drop (position l) (input l)) = [ch l]"
    by (simp add: take_Suc_conv_app_nth)
  with \<open>position l < length (input l)\<close> show ?thesis
    by (simp add: go_slice_def)
qed

lemma slice_two:
  assumes "wellFormed l" and "ch l \<noteq> CHR 0x00" and "peekChar l \<noteq> CHR 0x00"
  shows "go_slice (input l) (position l) (position l + 2) = Inr [ch l, peekChar l]"
proof -
  from assms have p: "position l < length (input l)" "input l ! position l = ch l"
    by (simp_all add: current_byte_in_input)
  have q: "position l + 1 < length (input l)" "input l ! (position l + 1) = peekChar l"
    using assms(1,3) by (rule next_byte_in_input)+
  have "drop (position l) (input l) =
          ch l # peekChar l # drop (position l + 2) (input l)"
    using p q Cons_nth_drop_Suc [of "position l" "input l"]
      Cons_nth_drop_Suc [of "position l + 1" "input l"]
    by simp
  then have "take 2 (drop (position l) (input l)) = [ch l, peekChar l]"
    by simp
  with q show ?thesis
    by (simp add: go_slice_def)
qed

lemma NextToken_two_char:
  assumes "[ch l, peekChar l] \<in> set twoCharOperators"
  shows "NextToken l =
           Some (Inr (\<lparr>Type = [ch l, peekChar l], Literal = [ch l, peekChar l], Line = line l,
                       Position = tokenPosition l + 1\<rparr>, readChar (readChar l)))"
proof -
  from assms have start: "\<not> isSpace (ch l)" "ch l \<noteq> CHR 0x0A"
    by (auto simp: twoCharOperators_def isSpace_def)
  from assms have "(ch l = CHR ''='' \<and> peekChar l = CHR ''='') \<or>
      (ch l = CHR ''!'' \<and> peekChar l = CHR ''='') \<or> (ch l = CHR ''<'' \<and> peekChar l = CHR ''='') \<or>
      (ch l = CHR ''>'' \<and> peekChar l = CHR ''='') \<or> (ch l = CHR ''+'' \<and> peekChar l = CHR ''+'') \<or>
      (ch l = CHR ''-'' \<and> peekChar l = CHR ''-'') \<or> (ch l = CHR ''+'' \<and> peekChar l = CHR ''='') \<or>
      (ch l = CHR ''-'' \<and> peekChar l = CHR ''='')"
    by (simp add: twoCharOperators_def)
  then have "switchToken l = Some (Inr (False, twoCharToken [ch l, peekChar l] l))"
    by (elim disjE conjE) (simp_all add: switchToken_def tok_defs Let_def)
  moreover from assms have "go_string (ch l) = [ch l]" "go_string (peekChar l) = [peekChar l]"
    by (auto simp: twoCharOperators_def go_string_def)
  ultimately show ?thesis
    by (simp add: NextToken_at_token_start [OF start] twoCharToken_def Let_def)
qed

lemma NextToken_one_char:
  assumes "ch l \<in> set oneCharTokens"
    and "[ch l, peekChar l] \<notin> set twoCharOperators"
    and "[ch l, peekChar l] \<noteq> ''//''" and "[ch l, peekChar l] \<noteq> ''/*''"
  shows "NextToken l =
           Some (Inr (\<lparr>Type = [ch l], Literal = [ch l], Line = line l, Position = position l\<rparr>,
                      readChar l))"
proof -
  from assms(1) have start: "\<not> isSpace (ch l)" "ch l \<noteq> CHR 0x0A"
    by (auto simp: oneCharTokens_def isSpace_def)
  from assms(1) have "ch l = CHR ''='' \<or> ch l = CHR ''+'' \<or> ch l = CHR ''-'' \<or> ch l = CHR ''*'' \<or>
      ch l = CHR ''/'' \<or> ch l = CHR ''%'' \<or> ch l = CHR ''!'' \<or> ch l = CHR ''<'' \<or>
      ch l = CHR ''>'' \<or> ch l = CHR ''('' \<or> ch l = CHR '')'' \<or> ch l = CHR ''{'' \<or>
      ch l = CHR ''}'' \<or> ch l = CHR ''['' \<or> ch l = CHR '']'' \<or> ch l = CHR '','' \<or>
      ch l = CHR ''.'' \<or> ch l = CHR '';''"
    by (simp add: oneCharTokens_def)
  then have "switchToken l =
      Some (Inr (False, \<lparr>Type = [ch l], Literal = go_string (ch l), Line = line l,
                         Position = position l\<rparr>, l))"
    using assms(2-4)
    by (elim disjE) (simp_all add: twoCharOperators_def switchToken_def newToken_def tok_defs Let_def)
  moreover from assms(1) have "go_string (ch l) = [ch l]"
    by (auto simp: oneCharTokens_def go_string_def)
  ultimately show ?thesis
    by (simp add: NextToken_at_token_start [OF start])
qed

text \<open>
  C8. Operators and punctuation. When the current byte and the next byte form one of the
  eight two-character operators, \<^verbatim>\<open>NextToken\<close> returns one token whose type and literal
  are those two bytes, and has consumed both. Otherwise, when the current byte is one of
  the single-character operators or punctuation marks (and the two bytes do not open a
  comment, which gives a \<^verbatim>\<open>COMMENT\<close> token and no operator), it returns the token whose
  type and literal are that byte, and has consumed it. In both cases the literal is the
  slice of the input that was matched. The scenario of the specification is the third
  conjunct.
\<close>

theorem operator_tokens:
  "(wellFormed l \<and> [ch l, peekChar l] \<in> set twoCharOperators \<longrightarrow>
      NextToken l =
        Some (Inr (\<lparr>Type = [ch l, peekChar l], Literal = [ch l, peekChar l], Line = line l,
                    Position = tokenPosition l + 1\<rparr>, readChar (readChar l))) \<and>
      go_slice (input l) (position l) (position l + 2) = Inr [ch l, peekChar l]) \<and>
   (wellFormed l \<and> ch l \<in> set oneCharTokens \<and> [ch l, peekChar l] \<notin> set twoCharOperators \<and>
    [ch l, peekChar l] \<noteq> ''//'' \<and> [ch l, peekChar l] \<noteq> ''/*'' \<longrightarrow>
      NextToken l =
        Some (Inr (\<lparr>Type = [ch l], Literal = [ch l], Line = line l, Position = position l\<rparr>,
                   readChar l)) \<and>
      go_slice (input l) (position l) (position l + 1) = Inr [ch l]) \<and>
   Tokens (NewLexer ''a!=i;+-*/%.'') =
     Some (Inr ([\<lparr>Type = IDENT, Literal = ''a'', Line = 1, Position = 2\<rparr>,
                 \<lparr>Type = NEQ, Literal = ''!='', Line = 1, Position = 3\<rparr>,
                 \<lparr>Type = IDENT, Literal = ''i'', Line = 1, Position = 5\<rparr>,
                 \<lparr>Type = SEMICOLON, Literal = '';'', Line = 1, Position = 4\<rparr>,
                 \<lparr>Type = PLUS, Literal = ''+'', Line = 1, Position = 5\<rparr>,
                 \<lparr>Type = MINUS, Literal = ''-'', Line = 1, Position = 6\<rparr>,
                 \<lparr>Type = ASTERISK, Literal = ''*'', Line = 1, Position = 7\<rparr>,
                 \<lparr>Type = SLASH, Literal = ''/'', Line = 1, Position = 8\<rparr>,
                 \<lparr>Type = PERCENT, Literal = ''%'', Line = 1, Position = 9\<rparr>,
                 \<lparr>Type = PERIOD, Literal = ''.'', Line = 1, Position = 10\<rparr>,
                 \<lparr>Type = EOF, Literal = [], Line = 0, Position = 0\<rparr>],
                \<lparr>input = ''a!=i;+-*/%.'', position = 12, readPosition = 13, ch = CHR 0x00,
                 line = 1, tokenPosition = 13, errors = []\<rparr>))"
proof (intro conjI impI)
  assume h: "wellFormed l \<and> [ch l, peekChar l] \<in> set twoCharOperators"
  then show "NextToken l =
        Some (Inr (\<lparr>Type = [ch l, peekChar l], Literal = [ch l, peekChar l], Line = line l,
                    Position = tokenPosition l + 1\<rparr>, readChar (readChar l)))"
    by (simp add: NextToken_two_char)
  from h have "ch l \<noteq> CHR 0x00" and "peekChar l \<noteq> CHR 0x00"
    by (auto simp: twoCharOperators_def)
  with h show "go_slice (input l) (position l) (position l + 2) = Inr [ch l, peekChar l]"
    by (intro slice_two) simp_all
next
  assume h: "wellFormed l \<and> ch l \<in> set oneCharTokens \<and>
    [ch l, peekChar l] \<notin> set twoCharOperators \<and>
    [ch l, peekChar l] \<noteq> ''//'' \<and> [ch l, peekChar l] \<noteq> ''/*''"
  then show "NextToken l =
        Some (Inr (\<lparr>Type = [ch l], Literal = [ch l], Line = line l, Position = position l\<rparr>,
                   readChar l))"
    by (intro NextToken_one_char) simp_all
  from h have "ch l \<noteq> CHR 0x00"
    by (auto simp: oneCharTokens_def)
  with h show "go_slice (input l) (position l) (position l + 1) = Inr [ch l]"
    by (intro slice_one) simp_all
next
  show "Tokens (NewLexer ''a!=i;+-*/%.'') =
     Some (Inr ([\<lparr>Type = IDENT, Literal = ''a'', Line = 1, Position = 2\<rparr>,
                 \<lparr>Type = NEQ, Literal = ''!='', Line = 1, Position = 3\<rparr>,
                 \<lparr>Type = IDENT, Literal = ''i'', Line = 1, Position = 5\<rparr>,
                 \<lparr>Type = SEMICOLON, Literal = '';'', Line = 1, Position = 4\<rparr>,
                 \<lparr>Type = PLUS, Literal = ''+'', Line = 1, Position = 5\<rparr>,
                 \<lparr>Type = MINUS, Literal = ''-'', Line = 1, Position = 6\<rparr>,
                 \<lparr>Type = ASTERISK, Literal = ''*'', Line = 1, Position = 7\<rparr>,
                 \<lparr>Type = SLASH, Literal = ''/'', Line = 1, Position = 8\<rparr>,
                 \<lparr>Type = PERCENT, Literal = ''%'', Line = 1, Position = 9\<rparr>,
                 \<lparr>Type = PERIOD, Literal = ''.'', Line = 1, Position = 10\<rparr>,
                 \<lparr>Type = EOF, Literal = [], Line = 0, Position = 0\<rparr>],
                \<lparr>input = ''a!=i;+-*/%.'', position = 12, readPosition = 13, ch = CHR 0x00,
                 line = 1, tokenPosition = 13, errors = []\<rparr>))"
    by code_simp
qed

theorem operator_tokens_witness:
  "wellFormed (NewLexer ''<=x'') \<and>
   [ch (NewLexer ''<=x''), peekChar (NewLexer ''<=x'')] \<in> set twoCharOperators \<and>
   NextToken (NewLexer ''<=x'') =
     Some (Inr (\<lparr>Type = LE, Literal = ''<='', Line = 1, Position = 2\<rparr>,
                readChar (readChar (NewLexer ''<=x'')))) \<and>
   go_slice ''<=x'' 0 2 = Inr ''<='' \<and>
   wellFormed (NewLexer ''/%'') \<and> ch (NewLexer ''/%'') \<in> set oneCharTokens \<and>
   [ch (NewLexer ''/%''), peekChar (NewLexer ''/%'')] \<notin> set twoCharOperators \<and>
   [ch (NewLexer ''/%''), peekChar (NewLexer ''/%'')] \<noteq> ''//'' \<and>
   [ch (NewLexer ''/%''), peekChar (NewLexer ''/%'')] \<noteq> ''/*'' \<and>
   NextToken (NewLexer ''/%'') =
     Some (Inr (\<lparr>Type = SLASH, Literal = ''/'', Line = 1, Position = 0\<rparr>,
                readChar (NewLexer ''/%''))) \<and>
   go_slice ''/%'' 0 1 = Inr ''/''"
proof -
  have two: "wellFormed (NewLexer ''<=x'')"
    "[ch (NewLexer ''<=x''), peekChar (NewLexer ''<=x'')] \<in> set twoCharOperators"
    by (simp_all add: NewLexer_def peekChar_def twoCharOperators_def)
  have one: "wellFormed (NewLexer ''/%'')" "ch (NewLexer ''/%'') \<in> set oneCharTokens"
    "[ch (NewLexer ''/%''), peekChar (NewLexer ''/%'')] \<notin> set twoCharOperators"
    "[ch (NewLexer ''/%''), peekChar (NewLexer ''/%'')] \<noteq> ''//''"
    "[ch (NewLexer ''/%''), peekChar (NewLexer ''/%'')] \<noteq> ''/*''"
    by (simp_all add: NewLexer_def peekChar_def twoCharOperators_def oneCharTokens_def)
  have fields: "ch (NewLexer ''<=x'') = CHR ''<''" "peekChar (NewLexer ''<=x'') = CHR ''=''"
    "line (NewLexer ''<=x'') = 1" "tokenPosition (NewLexer ''<=x'') = 1"
    "position (NewLexer ''<=x'') = 0" "input (NewLexer ''<=x'') = ''<=x''"
    "ch (NewLexer ''/%'') = CHR ''/''" "line (NewLexer ''/%'') = 1"
    "position (NewLexer ''/%'') = 0" "input (NewLexer ''/%'') = ''/%''"
    by (simp_all add: NewLexer_def peekChar_def)
  from operator_tokens [of "NewLexer ''<=x''"] operator_tokens [of "NewLexer ''/%''"] two one
  show ?thesis
    by (simp add: fields tok_defs go_slice_def)
qed

section \<open>Identifiers and keywords\<close>

lemma cursorAt_fields [simp]:
  "input (cursorAt l p ln tp) = input l"
  "position (cursorAt l p ln tp) = p"
  "readPosition (cursorAt l p ln tp) = p + 1"
  "line (cursorAt l p ln tp) = ln"
  "tokenPosition (cursorAt l p ln tp) = tp"
  "errors (cursorAt l p ln tp) = errors l"
  "ch (cursorAt l p ln tp) = (if p < length (input l) then input l ! p else CHR 0x00)"
  by (simp_all add: cursorAt_def)

lemma wellFormed_cursorAt [simp]: "wellFormed (cursorAt l p ln tp)"
  by (simp add: wellFormed_def)

lemma cursorAt_here: "wellFormed l \<Longrightarrow> cursorAt l (position l) (line l) (tokenPosition l) = l"
  by (simp add: wellFormed_def cursorAt_def)

lemma cursorAt_readChar [simp]: "cursorAt (readChar l) p ln tp = cursorAt l p ln tp"
  by (simp add: cursorAt_def readChar_def)

lemma cursorAt_cursorAt [simp]: "cursorAt (cursorAt l q m tq) p ln tp = cursorAt l p ln tp"
  by (simp add: cursorAt_def)

lemma cursorAt_line_update [simp]: "cursorAt (l\<lparr>line := n\<rparr>) p ln tp = cursorAt l p ln tp"
  by (simp add: cursorAt_def)

lemma readChar_cursorAt [simp]: "readChar (cursorAt l p ln tp) = cursorAt l (p + 1) ln (tp + 1)"
  by (simp add: cursorAt_def readChar_def)

lemma readChar_wellFormed:
  "wellFormed l \<Longrightarrow> readChar l = cursorAt l (position l + 1) (line l) (tokenPosition l + 1)"
  by (simp add: wellFormed_def cursorAt_def readChar_def)

lemma isLetter_zero [simp]: "\<not> isLetter (CHR 0x00)"
  by (simp add: isLetter_def unicode_IsLetter_def)

lemma isLetter_not_special:
  assumes "isLetter c"
  shows "\<not> isSpace c" and "c \<noteq> CHR 0x0A" and "c \<notin> set oneCharTokens" and "c \<noteq> CHR 0x00"
    and "c \<noteq> CHR 0x22" and "\<not> isDigit c"
  using assms
  by (auto simp: isLetter_def unicode_IsLetter_def isSpace_def oneCharTokens_def isDigit_def)

lemma identifierRun_letter:
  assumes "wellFormed l" and "isLetter (ch l)"
  shows "identifierRun l = ch l # identifierRun (readChar l)"
proof -
  from assms have "ch l \<noteq> CHR 0x00" by (auto simp: isLetter_not_special)
  with assms(1) have "position l < length (input l)" and "input l ! position l = ch l"
    by (rule current_byte_in_input)+
  then have "drop (position l) (input l) = ch l # drop (Suc (position l)) (input l)"
    by (simp add: Cons_nth_drop_Suc [symmetric])
  moreover from assms(1) have "readPosition l = Suc (position l)"
    by (simp add: wellFormed_def)
  ultimately show ?thesis using assms(2)
    by (simp add: identifierRun_def)
qed

lemma identifierRun_no_letter:
  assumes "wellFormed l" and "\<not> isLetter (ch l)"
  shows "identifierRun l = []"
proof (cases "position l < length (input l)")
  case True
  with assms(1) have "input l ! position l = ch l"
    by (simp add: wellFormed_def)
  with True have "drop (position l) (input l) = ch l # drop (Suc (position l)) (input l)"
    by (simp add: Cons_nth_drop_Suc [symmetric])
  with assms(2) show ?thesis
    by (simp add: identifierRun_def)
next
  case False
  then show ?thesis by (simp add: identifierRun_def)
qed

lemma readIdentifier_loop_run:
  "wellFormed l \<Longrightarrow>
   readIdentifier_loop l =
     cursorAt l (position l + length (identifierRun l)) (line l)
       (tokenPosition l + length (identifierRun l))"
proof (induction l rule: readIdentifier_loop.induct)
  case (1 l)
  show ?case
  proof (cases "isLetter (ch l)")
    case True
    with "1.IH" have "readIdentifier_loop (readChar l) =
        cursorAt l (readPosition l + length (identifierRun (readChar l))) (line l)
          (tokenPosition l + 1 + length (identifierRun (readChar l)))"
      by simp
    moreover from "1.prems" have "readPosition l = position l + 1"
      by (simp add: wellFormed_def)
    ultimately show ?thesis using True "1.prems"
      by (simp add: readIdentifier_loop.simps [of l] identifierRun_letter)
  next
    case False
    with "1.prems" show ?thesis
      by (simp add: readIdentifier_loop.simps [of l] identifierRun_no_letter cursorAt_here)
  qed
qed

lemma readIdentifier_run:
  assumes "wellFormed l" and "isLetter (ch l)"
  shows "readIdentifier l =
           Inr (identifierRun l,
                cursorAt l (position l + length (identifierRun l)) (line l)
                  (tokenPosition l + length (identifierRun l)))"
proof -
  from assms have "ch l \<noteq> CHR 0x00" by (auto simp: isLetter_not_special)
  with assms(1) have "position l < length (input l)"
    by (rule current_byte_in_input)
  moreover have "length (identifierRun l) \<le> length (drop (position l) (input l))"
    unfolding identifierRun_def by (rule length_takeWhile_le)
  ultimately have "position l + length (identifierRun l) \<le> length (input l)"
    by simp
  moreover have "take (length (identifierRun l)) (drop (position l) (input l)) = identifierRun l"
    unfolding identifierRun_def by (rule takeWhile_eq_take [symmetric])
  ultimately show ?thesis using assms(1)
    by (simp add: readIdentifier_def readIdentifier_loop_run go_slice_def)
qed

lemma switchToken_letter:
  assumes "isLetter (ch l)"
  shows "switchToken l =
           (case readIdentifier l of
              Inl e \<Rightarrow> Some (Inl e)
            | Inr (literal, l') \<Rightarrow>
                Some (Inr (True, \<lparr>Type = lookupIdent literal, Literal = literal, Line = line l',
                                  Position = tokenPosition l'\<rparr>, l')))"
  using isLetter_not_special [OF assms] assms
  by (simp add: switchToken_def oneCharTokens_def)

lemma lookupIdent_table:
  "lookupIdent s = (if s \<in> set keywordTable then s else IDENT)"
  by (simp add: lookupIdent_def keywordTable_def tok_defs)

lemma NextToken_identifier:
  assumes "wellFormed l" and "isLetter (ch l)"
  shows "NextToken l =
           Some (Inr (\<lparr>Type = lookupIdent (identifierRun l), Literal = identifierRun l,
                       Line = line l, Position = tokenPosition l + length (identifierRun l)\<rparr>,
                      cursorAt l (position l + length (identifierRun l)) (line l)
                        (tokenPosition l + length (identifierRun l))))"
  using assms isLetter_not_special(1,2) [OF assms(2)]
  by (simp add: NextToken_at_token_start switchToken_letter readIdentifier_run)

lemma identifierRun_maximal:
  "\<not> isLetter (ch (cursorAt l (position l + length (identifierRun l)) ln tp))"
proof (cases "position l + length (identifierRun l) < length (input l)")
  case True
  then have "length (takeWhile isLetter (drop (position l) (input l))) <
      length (drop (position l) (input l))"
    by (simp add: identifierRun_def)
  then have "\<not> isLetter (drop (position l) (input l) ! length (identifierRun l))"
    unfolding identifierRun_def by (rule nth_length_takeWhile)
  with True show ?thesis by simp
next
  case False
  then show ?thesis by simp
qed

text \<open>
  C9. On a well-formed lexer whose current byte is an identifier byte, \<^verbatim>\<open>NextToken\<close>
  reads the maximal run of identifier bytes that starts under the cursor (the byte after
  the run is not an identifier byte), and only then looks the run up: the token's literal
  is the run, and its type is the run itself when the run is one of the eight keywords and
  \<^verbatim>\<open>IDENT\<close> otherwise. The input \<open>ifx\<close> gives the single identifier \<open>ifx\<close>.
\<close>

theorem keyword_lookup_after_maximal_run:
  "(wellFormed l \<and> isLetter (ch l) \<longrightarrow>
      NextToken l =
        Some (Inr (\<lparr>Type = (if identifierRun l \<in> set keywordTable then identifierRun l else IDENT),
                    Literal = identifierRun l, Line = line l,
                    Position = tokenPosition l + length (identifierRun l)\<rparr>,
                   cursorAt l (position l + length (identifierRun l)) (line l)
                     (tokenPosition l + length (identifierRun l)))) \<and>
      identifierRun l \<noteq> [] \<and>
      \<not> isLetter (ch (cursorAt l (position l + length (identifierRun l)) (line l)
                        (tokenPosition l + length (identifierRun l))))) \<and>
   Tokens (NewLexer ''ifx'') =
     Some (Inr ([\<lparr>Type = IDENT, Literal = ''ifx'', Line = 1, Position = 4\<rparr>,
                 \<lparr>Type = EOF, Literal = [], Line = 0, Position = 0\<rparr>],
                \<lparr>input = ''ifx'', position = 4, readPosition = 5, ch = CHR 0x00, line = 1,
                 tokenPosition = 5, errors = []\<rparr>))"
proof (intro conjI impI)
  assume h: "wellFormed l \<and> isLetter (ch l)"
  then have "NextToken l =
      Some (Inr (\<lparr>Type = lookupIdent (identifierRun l), Literal = identifierRun l,
                  Line = line l, Position = tokenPosition l + length (identifierRun l)\<rparr>,
                 cursorAt l (position l + length (identifierRun l)) (line l)
                   (tokenPosition l + length (identifierRun l))))"
    by (simp add: NextToken_identifier)
  then show "NextToken l =
        Some (Inr (\<lparr>Type = (if identifierRun l \<in> set keywordTable then identifierRun l else IDENT),
                    Literal = identifierRun l, Line = line l,
                    Position = tokenPosition l + length (identifierRun l)\<rparr>,
                   cursorAt l (position l + length (identifierRun l)) (line l)
                     (tokenPosition l + length (identifierRun l))))"
    by (simp only: lookupIdent_table)
  from h show "identifierRun l \<noteq> []"
    by (simp add: identifierRun_letter)
  show "\<not> isLetter (ch (cursorAt l (position l + length (identifierRun l)) (line l)
                        (tokenPosition l + length (identifierRun l))))"
    by (rule identifierRun_maximal)
next
  show "Tokens (NewLexer ''ifx'') =
     Some (Inr ([\<lparr>Type = IDENT, Literal = ''ifx'', Line = 1, Position = 4\<rparr>,
                 \<lparr>Type = EOF, Literal = [], Line = 0, Position = 0\<rparr>],
                \<lparr>input = ''ifx'', position = 4, readPosition = 5, ch = CHR 0x00, line = 1,
                 tokenPosition = 5, errors = []\<rparr>))"
    by code_simp
qed

theorem keyword_lookup_after_maximal_run_witness:
  "wellFormed (NewLexer ''if x'') \<and> isLetter (ch (NewLexer ''if x'')) \<and>
   NextToken (NewLexer ''if x'') =
     Some (Inr (\<lparr>Type = IF, Literal = ''if'', Line = 1, Position = 3\<rparr>,
                cursorAt (NewLexer ''if x'') 2 1 3)) \<and>
   ch (cursorAt (NewLexer ''if x'') 2 1 3) = CHR '' ''"
proof -
  have start: "wellFormed (NewLexer ''if x'')" "isLetter (ch (NewLexer ''if x''))"
    by (simp_all add: NewLexer_def peekChar_def isLetter_def unicode_IsLetter_def)
  have run: "identifierRun (NewLexer ''if x'') = ''if''"
    by (simp add: identifierRun_def NewLexer_def isLetter_def unicode_IsLetter_def)
  have fields: "line (NewLexer ''if x'') = 1" "tokenPosition (NewLexer ''if x'') = 1"
    "position (NewLexer ''if x'') = 0" "input (NewLexer ''if x'') = ''if x''"
    by (simp_all add: NewLexer_def)
  from keyword_lookup_after_maximal_run [of "NewLexer ''if x''"] start
  show ?thesis
    by (simp add: run fields keywordTable_def tok_defs)
qed

section \<open>Identifier bytes and unrecognised bytes\<close>

lemma isLetter_identifierByte: "isLetter c \<longleftrightarrow> identifierByte c"
  by (auto simp: isLetter_def unicode_IsLetter_def identifierByte_def asciiLetter_def
        latin1Letter_def Let_def)

lemma identifierRun_bytes:
  "identifierRun l = takeWhile identifierByte (drop (position l) (input l))"
  by (simp add: identifierRun_def isLetter_identifierByte [abs_def])

lemma switchToken_no_identifier:
  assumes "\<not> isLetter (ch l)" and "switchToken l = Some (Inr (r, tok, l'))"
  shows "Type tok \<notin> set (IDENT # keywordTable)"
  using assms
  by (auto simp: switchToken_def Let_def twoCharToken_def newToken_def readNumber_def tok_defs
        keywordTable_def split: if_splits option.splits sum.splits prod.splits)

lemma NextToken_no_identifier:
  assumes "\<not> isSpace (ch l)" and "ch l \<noteq> CHR 0x0A" and "\<not> isLetter (ch l)"
    and "NextToken l = Some (Inr (tok, l'))"
  shows "Type tok \<notin> set (IDENT # keywordTable)"
proof -
  from assms(1,2,4) obtain r l1 where "switchToken l = Some (Inr (r, tok, l1))"
    by (auto simp: NextToken_at_token_start split: option.splits sum.splits)
  with assms(3) show ?thesis
    by (rule switchToken_no_identifier)
qed

lemma NextToken_illegal:
  assumes "(of_char (ch l) :: nat) < 128" and "\<not> recognized (ch l)"
  shows "NextToken l =
           Some (Inr (\<lparr>Type = ILLEGAL, Literal = [ch l], Line = line l, Position = position l\<rparr>,
                      readChar l))"
proof -
  from assms(2) have start: "\<not> isSpace (ch l)" "ch l \<noteq> CHR 0x0A"
    by (simp_all add: recognized_def)
  from assms(2) have "switchToken l = Some (Inr (False, newToken ILLEGAL (ch l) (line l) (position l), l))"
    by (simp add: recognized_def oneCharTokens_def switchToken_def)
  with assms(1) show ?thesis
    by (simp add: NextToken_at_token_start [OF start] newToken_def go_string_def)
qed

text \<open>
  C7, as stated, fails. The byte \<open>0xE9\<close> is neither an ASCII letter nor the underscore,
  and it starts an identifier: \<^verbatim>\<open>isLetter\<close> asks \<^verbatim>\<open>unicode.IsLetter\<close> about the byte taken
  as a code point, and U+00E9 is a letter. And the byte \<open>0x80\<close>, which no case recognises,
  gives an \<^verbatim>\<open>ILLEGAL\<close> token whose literal is not that byte but the two bytes
  \<open>0xC2 0x80\<close>, Go's conversion \<^verbatim>\<open>string(ch)\<close> of the code point U+0080.
\<close>

theorem latin1_byte_starts_identifier:
  "\<not> (asciiLetter (CHR 0xE9) \<or> CHR 0xE9 = CHR ''_'') \<and>
   NextToken (NewLexer [CHR 0xE9]) =
     Some (Inr (\<lparr>Type = IDENT, Literal = [CHR 0xE9], Line = 1, Position = 2\<rparr>,
                \<lparr>input = [CHR 0xE9], position = 1, readPosition = 2, ch = CHR 0x00, line = 1,
                 tokenPosition = 2, errors = []\<rparr>)) \<and>
   \<not> recognized (CHR 0x80) \<and>
   NextToken (NewLexer [CHR 0x80]) =
     Some (Inr (\<lparr>Type = ILLEGAL, Literal = [CHR 0xC2, CHR 0x80], Line = 1, Position = 0\<rparr>,
                \<lparr>input = [CHR 0x80], position = 1, readPosition = 2, ch = CHR 0x00, line = 1,
                 tokenPosition = 2, errors = []\<rparr>))"
  by code_simp

text \<open>
  C7, amended. The identifier bytes are the ASCII letters, the underscore and the
  Latin-1 letters \<open>0xAA\<close>, \<open>0xB5\<close>, \<open>0xBA\<close>, \<open>0xC0\<close>-\<open>0xD6\<close>, \<open>0xD8\<close>-\<open>0xF6\<close>,
  \<open>0xF8\<close>-\<open>0xFF\<close>. On a well-formed lexer whose current byte is one of them,
  \<^verbatim>\<open>NextToken\<close> returns an identifier or keyword token whose literal is the maximal run of
  such bytes; a digit is not one of them. At any other token start the token returned is
  neither an identifier nor a keyword. Every ASCII byte that no case recognises gives an
  \<^verbatim>\<open>ILLEGAL\<close> token whose literal is that byte, and the cursor moves on by one byte.
\<close>

theorem identifier_bytes_and_illegal_bytes:
  "(isLetter c \<longleftrightarrow> identifierByte c) \<and>
   (wellFormed l \<and> identifierByte (ch l) \<longrightarrow>
      NextToken l =
        Some (Inr (\<lparr>Type = lookupIdent (takeWhile identifierByte (drop (position l) (input l))),
                    Literal = takeWhile identifierByte (drop (position l) (input l)),
                    Line = line l,
                    Position = tokenPosition l +
                      length (takeWhile identifierByte (drop (position l) (input l)))\<rparr>,
                   cursorAt l
                     (position l + length (takeWhile identifierByte (drop (position l) (input l))))
                     (line l)
                     (tokenPosition l +
                        length (takeWhile identifierByte (drop (position l) (input l)))))) \<and>
      takeWhile identifierByte (drop (position l) (input l)) \<noteq> [] \<and>
      lookupIdent (takeWhile identifierByte (drop (position l) (input l))) \<in>
        set (IDENT # keywordTable)) \<and>
   (isDigit c \<longrightarrow> \<not> identifierByte c) \<and>
   (\<not> isSpace (ch l) \<and> ch l \<noteq> CHR 0x0A \<and> \<not> identifierByte (ch l) \<and>
    NextToken l = Some (Inr (tok, l')) \<longrightarrow> Type tok \<notin> set (IDENT # keywordTable)) \<and>
   ((of_char (ch l) :: nat) < 128 \<and> \<not> recognized (ch l) \<longrightarrow>
      NextToken l =
        Some (Inr (\<lparr>Type = ILLEGAL, Literal = [ch l], Line = line l, Position = position l\<rparr>,
                   readChar l)) \<and>
      position (readChar l) = readPosition l \<and> readPosition (readChar l) = readPosition l + 1)"
proof (intro conjI impI)
  show "isLetter c \<longleftrightarrow> identifierByte c"
    by (rule isLetter_identifierByte)
next
  assume h: "wellFormed l \<and> identifierByte (ch l)"
  then have letter: "isLetter (ch l)"
    by (simp add: isLetter_identifierByte)
  with h have "NextToken l =
      Some (Inr (\<lparr>Type = lookupIdent (identifierRun l), Literal = identifierRun l,
                  Line = line l, Position = tokenPosition l + length (identifierRun l)\<rparr>,
                 cursorAt l (position l + length (identifierRun l)) (line l)
                   (tokenPosition l + length (identifierRun l))))"
    by (simp add: NextToken_identifier)
  then show "NextToken l =
        Some (Inr (\<lparr>Type = lookupIdent (takeWhile identifierByte (drop (position l) (input l))),
                    Literal = takeWhile identifierByte (drop (position l) (input l)),
                    Line = line l,
                    Position = tokenPosition l +
                      length (takeWhile identifierByte (drop (position l) (input l)))\<rparr>,
                   cursorAt l
                     (position l + length (takeWhile identifierByte (drop (position l) (input l))))
                     (line l)
                     (tokenPosition l +
                        length (takeWhile identifierByte (drop (position l) (input l))))))"
    by (simp only: identifierRun_bytes)
  from h letter have "identifierRun l \<noteq> []"
    by (simp add: identifierRun_letter)
  then show "takeWhile identifierByte (drop (position l) (input l)) \<noteq> []"
    by (simp add: identifierRun_bytes)
  show "lookupIdent (takeWhile identifierByte (drop (position l) (input l))) \<in>
        set (IDENT # keywordTable)"
    by (simp add: lookupIdent_table)
next
  assume "isDigit c"
  then show "\<not> identifierByte c"
    using isLetter_not_special(6) [of c] by (auto simp: isLetter_identifierByte)
next
  assume "\<not> isSpace (ch l) \<and> ch l \<noteq> CHR 0x0A \<and> \<not> identifierByte (ch l) \<and>
    NextToken l = Some (Inr (tok, l'))"
  then show "Type tok \<notin> set (IDENT # keywordTable)"
    by (intro NextToken_no_identifier [of l tok l']) (simp_all add: isLetter_identifierByte)
next
  assume "(of_char (ch l) :: nat) < 128 \<and> \<not> recognized (ch l)"
  then show "NextToken l =
        Some (Inr (\<lparr>Type = ILLEGAL, Literal = [ch l], Line = line l, Position = position l\<rparr>,
                   readChar l))"
    by (simp add: NextToken_illegal)
next
  show "position (readChar l) = readPosition l" and "readPosition (readChar l) = readPosition l + 1"
    by simp_all
qed

theorem identifier_bytes_and_illegal_bytes_witness:
  "wellFormed (NewLexer ''_a1'') \<and> identifierByte (ch (NewLexer ''_a1'')) \<and>
   NextToken (NewLexer ''_a1'') =
     Some (Inr (\<lparr>Type = IDENT, Literal = ''_a'', Line = 1, Position = 3\<rparr>,
                cursorAt (NewLexer ''_a1'') 2 1 3)) \<and>
   isDigit (CHR ''1'') \<and> \<not> identifierByte (CHR ''1'') \<and>
   \<not> isSpace (ch (NewLexer ''1'')) \<and> ch (NewLexer ''1'') \<noteq> CHR 0x0A \<and>
   \<not> identifierByte (ch (NewLexer ''1'')) \<and>
   NextToken (NewLexer ''1'') =
     Some (Inr (\<lparr>Type = INT_tok, Literal = ''1'', Line = 1, Position = 2\<rparr>,
                \<lparr>input = ''1'', position = 1, readPosition = 2, ch = CHR 0x00, line = 1,
                 tokenPosition = 2, errors = []\<rparr>)) \<and>
   INT_tok \<notin> set (IDENT # keywordTable) \<and>
   (of_char (ch (NewLexer ''@'')) :: nat) < 128 \<and> \<not> recognized (ch (NewLexer ''@'')) \<and>
   NextToken (NewLexer ''@'') =
     Some (Inr (\<lparr>Type = ILLEGAL, Literal = ''@'', Line = 1, Position = 0\<rparr>,
                readChar (NewLexer ''@'')))"
proof -
  have ident: "wellFormed (NewLexer ''_a1'')" "identifierByte (ch (NewLexer ''_a1''))"
    by (simp_all add: NewLexer_def peekChar_def identifierByte_def)
  have digit: "isDigit (CHR ''1'')"
    by (simp add: isDigit_def)
  have number: "\<not> isSpace (ch (NewLexer ''1''))" "ch (NewLexer ''1'') \<noteq> CHR 0x0A"
    "\<not> identifierByte (ch (NewLexer ''1''))"
    by (simp_all add: NewLexer_def peekChar_def isSpace_def identifierByte_def asciiLetter_def
          latin1Letter_def)
  have number_token: "NextToken (NewLexer ''1'') =
     Some (Inr (\<lparr>Type = INT_tok, Literal = ''1'', Line = 1, Position = 2\<rparr>,
                \<lparr>input = ''1'', position = 1, readPosition = 2, ch = CHR 0x00, line = 1,
                 tokenPosition = 2, errors = []\<rparr>))"
    by code_simp
  have at: "(of_char (ch (NewLexer ''@'')) :: nat) < 128" "\<not> recognized (ch (NewLexer ''@''))"
    by (simp_all add: NewLexer_def peekChar_def recognized_def isSpace_def oneCharTokens_def
          isLetter_def unicode_IsLetter_def isDigit_def)
  have fields: "line (NewLexer ''_a1'') = 1" "tokenPosition (NewLexer ''_a1'') = 1"
    "position (NewLexer ''_a1'') = 0" "input (NewLexer ''_a1'') = ''_a1''"
    "ch (NewLexer ''@'') = CHR ''@''"
    "line (NewLexer ''@'') = 1" "position (NewLexer ''@'') = 0"
    by (simp_all add: NewLexer_def peekChar_def)
  let ?L = "NewLexer ''_a1''"
  let ?R = "takeWhile identifierByte (drop (position ?L) (input ?L))"
  have run: "?R = ''_a''"
    by (simp add: NewLexer_def identifierByte_def asciiLetter_def latin1Letter_def)
  note a = identifier_bytes_and_illegal_bytes [of "CHR ''1''" ?L]
  note b = identifier_bytes_and_illegal_bytes [of "CHR ''1''" "NewLexer ''1''"
      "\<lparr>Type = INT_tok, Literal = ''1'', Line = 1, Position = 2\<rparr>"
      "\<lparr>input = ''1'', position = 1, readPosition = 2, ch = CHR 0x00, line = 1,
        tokenPosition = 2, errors = []\<rparr>"]
  note c = identifier_bytes_and_illegal_bytes [of "CHR ''1''" "NewLexer ''@''"]
  from a ident have "NextToken ?L =
     Some (Inr (\<lparr>Type = lookupIdent ?R, Literal = ?R, Line = line ?L,
                 Position = tokenPosition ?L + length ?R\<rparr>,
                cursorAt ?L (position ?L + length ?R) (line ?L) (tokenPosition ?L + length ?R)))"
    by blast
  then have "NextToken ?L =
     Some (Inr (\<lparr>Type = lookupIdent ''_a'', Literal = ''_a'', Line = line ?L,
                 Position = tokenPosition ?L + length ''_a''\<rparr>,
                cursorAt ?L (position ?L + length ''_a'') (line ?L)
                  (tokenPosition ?L + length ''_a'')))"
    by (simp only: run)
  then have "NextToken (NewLexer ''_a1'') =
     Some (Inr (\<lparr>Type = IDENT, Literal = ''_a'', Line = 1, Position = 3\<rparr>,
                cursorAt (NewLexer ''_a1'') 2 1 3))"
    by (simp add: fields lookupIdent_def)
  moreover from b digit have "\<not> identifierByte (CHR ''1'')"
    by blast
  moreover from b number number_token
  have "Type \<lparr>Type = INT_tok, Literal = ''1'', Line = 1, Position = 2\<rparr> \<notin> set (IDENT # keywordTable)"
    by blast
  then have "INT_tok \<notin> set (IDENT # keywordTable)"
    by simp
  moreover from c at have "NextToken (NewLexer ''@'') =
     Some (Inr (\<lparr>Type = ILLEGAL, Literal = [ch (NewLexer ''@'')], Line = line (NewLexer ''@''),
                 Position = position (NewLexer ''@'')\<rparr>, readChar (NewLexer ''@'')))"
    by blast
  then have "NextToken (NewLexer ''@'') =
     Some (Inr (\<lparr>Type = ILLEGAL, Literal = ''@'', Line = 1, Position = 0\<rparr>,
                readChar (NewLexer ''@'')))"
    by (simp add: fields)
  ultimately show ?thesis
    using ident digit number number_token at by simp
qed

section \<open>Block comments\<close>

lemma drop_eq_Cons:
  assumes "drop p xs = y # ys"
  shows "p < length xs" and "xs ! p = y" and "drop (Suc p) xs = ys"
proof -
  from assms show p: "p < length xs"
    by (cases "p < length xs") simp_all
  from p have "drop p xs = xs ! p # drop (Suc p) xs"
    by (simp add: Cons_nth_drop_Suc)
  with assms show "xs ! p = y" and "drop (Suc p) xs = ys"
    by simp_all
qed

text \<open>
  The loop of \<^verbatim>\<open>readBlockComment\<close> on a text \<open>body @ ''*/'' @ rest\<close> in which \<open>*/\<close> does not
  occur before the end of \<open>body @ ''*''\<close>: it stops with the cursor on the star, and has
  counted the line feeds of \<open>body\<close>.
\<close>

lemma readBlockComment_loop_finds:
  "wellFormed l \<Longrightarrow> drop (position l) (input l) = body @ ''*/'' @ rest \<Longrightarrow>
   noClose (body @ ''*'') \<Longrightarrow>
   readBlockComment_loop l =
     Some (cursorAt l (position l + length body) (line l + count_list body (CHR 0x0A))
             (tokenPosition l + length body))"
proof (induction body arbitrary: l)
  case Nil
  then have d: "drop (position l) (input l) = CHR ''*'' # CHR ''/'' # rest"
    by simp
  then have star: "position l < length (input l)" "input l ! position l = CHR ''*''"
    and d': "drop (Suc (position l)) (input l) = CHR ''/'' # rest"
    by (simp_all add: drop_eq_Cons)
  from d' have "Suc (position l) < length (input l)" "input l ! Suc (position l) = CHR ''/''"
    by (simp_all add: drop_eq_Cons)
  with star Nil.prems(1) have "ch l = CHR ''*''" "peekChar l = CHR ''/''"
    by (simp_all add: wellFormed_def peekChar_def)
  with Nil.prems(1) show ?case
    by (simp add: readBlockComment_loop.simps [of l] cursorAt_here)
next
  case (Cons c body)
  let ?k = "readChar (if c = CHR 0x0A then l\<lparr>line := line l + 1\<rparr> else l)"
  from Cons.prems(2) have d: "drop (position l) (input l) = c # body @ ''*/'' @ rest"
    by simp
  then have cur: "position l < length (input l)" "input l ! position l = c"
    and d': "drop (Suc (position l)) (input l) = body @ ''*/'' @ rest"
    by (simp_all add: drop_eq_Cons)
  from cur Cons.prems(1) have c: "ch l = c" and rp: "readPosition l = Suc (position l)"
    by (simp_all add: wellFormed_def)
  obtain e es where e: "body @ ''*/'' @ rest = e # es" "body @ ''*'' = e # take (length body) es"
    by (cases body) simp_all
  with d' have "Suc (position l) < length (input l)" "input l ! Suc (position l) = e"
    by (simp_all add: drop_eq_Cons)
  with rp have peek: "peekChar l = e"
    by (simp add: peekChar_def)
  from Cons.prems(3) e(2) have "c \<noteq> CHR ''*'' \<or> e \<noteq> CHR ''/''" and nc: "noClose (body @ ''*'')"
    by simp_all
  with c peek have step: "readBlockComment_loop l = readBlockComment_loop ?k"
    by (auto simp: readBlockComment_loop.simps [of l])
  have k: "?k = cursorAt l (position l + 1) (line l + (if c = CHR 0x0A then 1 else 0))
              (tokenPosition l + 1)"
    using Cons.prems(1) by (simp add: wellFormed_def cursorAt_def readChar_def)
  have "readBlockComment_loop ?k =
      Some (cursorAt ?k (position ?k + length body) (line ?k + count_list body (CHR 0x0A))
              (tokenPosition ?k + length body))"
  proof (rule Cons.IH)
    show "wellFormed ?k" by simp
    show "drop (position ?k) (input ?k) = body @ ''*/'' @ rest"
      using d' rp by simp
    show "noClose (body @ ''*'')" by (rule nc)
  qed
  with step show ?case
    by (simp add: k)
qed

lemma readBlockComment_finds:
  assumes "wellFormed l" and "drop (position l) (input l) = body @ ''*/'' @ rest"
    and "noClose (body @ ''*'')"
  shows "readBlockComment l =
           Some (Inr (body @ ''*/'',
                      cursorAt l (position l + length body + 2)
                        (line l + count_list body (CHR 0x0A)) (tokenPosition l + length body + 2)))"
proof -
  have "length (drop (position l) (input l)) = length body + 2 + length rest"
    by (simp add: assms(2))
  then have len: "position l + length body + 2 \<le> length (input l)"
    by simp
  have "take (length body + 2) (drop (position l) (input l)) = body @ ''*/''"
    by (simp add: assms(2))
  with len show ?thesis
    by (simp add: readBlockComment_def readBlockComment_loop_finds [OF assms] go_slice_def)
qed

section \<open>The scanner never looks back\<close>

text \<open>
  Once the cursor has passed an index, the byte stored there has no influence on the rest
  of the scan: every operation commutes with replacing that byte.
\<close>

lemma patch_fields [simp]:
  "input (patch k y l) = (input l)[k := y]"
  "position (patch k y l) = position l"
  "readPosition (patch k y l) = readPosition l"
  "ch (patch k y l) = ch l"
  "line (patch k y l) = line l"
  "tokenPosition (patch k y l) = tokenPosition l"
  "errors (patch k y l) = errors l"
  by (simp_all add: patch_def)

lemma patch_update [simp]:
  "(patch k y l)\<lparr>line := n\<rparr> = patch k y (l\<lparr>line := n\<rparr>)"
  "(patch k y l)\<lparr>tokenPosition := n\<rparr> = patch k y (l\<lparr>tokenPosition := n\<rparr>)"
  "(patch k y l)\<lparr>errors := es\<rparr> = patch k y (l\<lparr>errors := es\<rparr>)"
  by (simp_all add: patch_def)

lemma patch_back: "patch k (input l ! k) (patch k y l) = l"
  by (simp add: patch_def)

lemma passed_patch [simp]: "passed k (patch j y l) = passed k l"
  by (simp add: passed_def)

lemma passed_update [simp]:
  "passed k (l\<lparr>line := n\<rparr>) = passed k l"
  "passed k (l\<lparr>tokenPosition := n\<rparr>) = passed k l"
  "passed k (l\<lparr>errors := es\<rparr>) = passed k l"
  by (simp_all add: passed_def)

lemma passed_readChar: "passed k l \<Longrightarrow> passed k (readChar l)"
  by (simp add: passed_def)

lemma readChar_patch: "passed k l \<Longrightarrow> readChar (patch k y l) = patch k y (readChar l)"
  by (simp add: passed_def patch_def readChar_def)

lemma peekChar_patch: "passed k l \<Longrightarrow> peekChar (patch k y l) = peekChar l"
  by (simp add: passed_def patch_def peekChar_def)

lemma addError_patch: "addError (patch k y l) msg = patch k y (addError l msg)"
  by (simp add: patch_def addError_def)

lemma passed_addError [simp]: "passed k (addError l msg) = passed k l"
  by (simp add: addError_def)

lemma go_slice_patch: "k < a \<Longrightarrow> go_slice (xs[k := y]) a b = go_slice xs a b"
  by (simp add: go_slice_def drop_update_cancel)

lemma skipWhitespace_patch:
  "passed k l \<Longrightarrow>
   skipWhitespace (patch k y l) = patch k y (skipWhitespace l) \<and> passed k (skipWhitespace l)"
proof (induction l rule: skipWhitespace.induct)
  case (1 l)
  show ?case
  proof (cases "isSpace (ch l)")
    case True
    with "1.IH" "1.prems" show ?thesis
      by (simp add: skipWhitespace.simps [of l] skipWhitespace.simps [of "patch k y l"]
            readChar_patch passed_readChar)
  next
    case False
    with "1.prems" show ?thesis
      by (simp add: skipWhitespace.simps [of l] skipWhitespace.simps [of "patch k y l"])
  qed
qed

lemma readIdentifier_loop_patch:
  "passed k l \<Longrightarrow>
   readIdentifier_loop (patch k y l) = patch k y (readIdentifier_loop l) \<and>
   passed k (readIdentifier_loop l)"
proof (induction l rule: readIdentifier_loop.induct)
  case (1 l)
  show ?case
  proof (cases "isLetter (ch l)")
    case True
    with "1.IH" "1.prems" show ?thesis
      by (simp add: readIdentifier_loop.simps [of l] readIdentifier_loop.simps [of "patch k y l"]
            readChar_patch passed_readChar)
  next
    case False
    with "1.prems" show ?thesis
      by (simp add: readIdentifier_loop.simps [of l] readIdentifier_loop.simps [of "patch k y l"])
  qed
qed

lemma readNumber_loop_patch:
  "passed k l \<Longrightarrow>
   readNumber_loop (patch k y l) = patch k y (readNumber_loop l) \<and> passed k (readNumber_loop l)"
proof (induction l rule: readNumber_loop.induct)
  case (1 l)
  show ?case
  proof (cases "isDigit (ch l)")
    case True
    with "1.IH" "1.prems" show ?thesis
      by (simp add: readNumber_loop.simps [of l] readNumber_loop.simps [of "patch k y l"]
            readChar_patch passed_readChar)
  next
    case False
    with "1.prems" show ?thesis
      by (simp add: readNumber_loop.simps [of l] readNumber_loop.simps [of "patch k y l"])
  qed
qed

text \<open>
  For a loop that may not return, it is enough to show that a result over the one input
  gives the patched result over the patched input: patching back gives the converse.
\<close>

lemma patch_both_ways:
  assumes forward: "\<And>l r y. f l = Some r \<Longrightarrow> passed k l \<Longrightarrow> f (patch k y l) = Some (g y r)"
    and "passed k l"
  shows "f (patch k y l) = map_option (g y) (f l)"
proof (cases "f l")
  case (Some r)
  with assms show ?thesis by simp
next
  case None
  have "f (patch k y l) = None"
  proof (rule ccontr)
    assume "f (patch k y l) \<noteq> None"
    then obtain r' where "f (patch k y l) = Some r'" by auto
    moreover from assms(2) have "passed k (patch k y l)" by simp
    ultimately have "f (patch k (input l ! k) (patch k y l)) = Some (g (input l ! k) r')"
      by (rule forward)
    with None show False by (simp add: patch_back)
  qed
  with None show ?thesis by simp
qed

lemma readLineComment_loop_forward:
  assumes "readLineComment_loop l = Some r" and "passed k l"
  shows "readLineComment_loop (patch k y l) = Some (patch k y r) \<and> passed k r"
proof -
  have "passed k l \<longrightarrow> readLineComment_loop (patch k y l) = Some (patch k y r) \<and> passed k r"
  proof (rule readLineComment_loop.raw_induct
      [where P = "\<lambda>l r. passed k l \<longrightarrow>
          readLineComment_loop (patch k y l) = Some (patch k y r) \<and> passed k r", OF _ assms(1)])
    fix f l r
    assume IH: "\<And>x z. f x = Some z \<Longrightarrow>
        passed k x \<longrightarrow> readLineComment_loop (patch k y x) = Some (patch k y z) \<and> passed k z"
      and body: "(if ch l \<noteq> CHR 0x0D \<and> ch l \<noteq> CHR 0x0A then f (readChar l) else Some l) = Some r"
    show "passed k l \<longrightarrow> readLineComment_loop (patch k y l) = Some (patch k y r) \<and> passed k r"
    proof
      assume p: "passed k l"
      show "readLineComment_loop (patch k y l) = Some (patch k y r) \<and> passed k r"
      proof (cases "ch l \<noteq> CHR 0x0D \<and> ch l \<noteq> CHR 0x0A")
        case True
        with body have "f (readChar l) = Some r" by simp
        from IH [OF this] p True show ?thesis
          by (simp add: readLineComment_loop.simps [of "patch k y l"] readChar_patch passed_readChar)
      next
        case False
        with body have "r = l" by auto
        moreover from False have "readLineComment_loop (patch k y l) = Some (patch k y l)"
          by (auto simp: readLineComment_loop.simps [of "patch k y l"])
        ultimately show ?thesis using p by simp
      qed
    qed
  qed
  with assms(2) show ?thesis by simp
qed

lemma readBlockComment_loop_forward:
  assumes "readBlockComment_loop l = Some r" and "passed k l"
  shows "readBlockComment_loop (patch k y l) = Some (patch k y r) \<and> passed k r"
proof -
  have "passed k l \<longrightarrow> readBlockComment_loop (patch k y l) = Some (patch k y r) \<and> passed k r"
  proof (rule readBlockComment_loop.raw_induct
      [where P = "\<lambda>l r. passed k l \<longrightarrow>
          readBlockComment_loop (patch k y l) = Some (patch k y r) \<and> passed k r", OF _ assms(1)])
    fix f l r
    assume IH: "\<And>x z. f x = Some z \<Longrightarrow>
        passed k x \<longrightarrow> readBlockComment_loop (patch k y x) = Some (patch k y z) \<and> passed k z"
      and body: "(if ch l = CHR ''*'' \<and> peekChar l = CHR ''/'' then Some l
                  else if ch l = CHR 0x0A then f (readChar (l\<lparr>line := line l + 1\<rparr>))
                  else f (readChar l)) = Some r"
    show "passed k l \<longrightarrow> readBlockComment_loop (patch k y l) = Some (patch k y r) \<and> passed k r"
    proof
      assume p: "passed k l"
      consider (stop) "ch l = CHR ''*'' \<and> peekChar l = CHR ''/''"
        | (newline) "\<not> (ch l = CHR ''*'' \<and> peekChar l = CHR ''/'')" "ch l = CHR 0x0A"
        | (other) "\<not> (ch l = CHR ''*'' \<and> peekChar l = CHR ''/'')" "ch l \<noteq> CHR 0x0A"
        by blast
      then show "readBlockComment_loop (patch k y l) = Some (patch k y r) \<and> passed k r"
      proof cases
        case stop
        with body have "r = l" by simp
        with stop p show ?thesis
          by (simp add: readBlockComment_loop.simps [of "patch k y l"] peekChar_patch)
      next
        case newline
        with body have "f (readChar (l\<lparr>line := line l + 1\<rparr>)) = Some r" by simp
        from IH [OF this] p newline show ?thesis
          by (simp add: readBlockComment_loop.simps [of "patch k y l"] peekChar_patch
                readChar_patch passed_readChar)
      next
        case other
        with body have "f (readChar l) = Some r" by simp
        moreover from other p
        have "readBlockComment_loop (patch k y l) = readBlockComment_loop (readChar (patch k y l))"
          by (auto simp: readBlockComment_loop.simps [of "patch k y l"] peekChar_patch)
        ultimately show ?thesis using IH [of "readChar l" r] p
          by (simp add: readChar_patch passed_readChar)
      qed
    qed
  qed
  with assms(2) show ?thesis by simp
qed

lemma readString_loop_forward:
  assumes "readString_loop l = Some (b, r)" and "passed k l"
  shows "readString_loop (patch k y l) = Some (b, patch k y r) \<and> passed k r"
proof -
  have "passed k l \<longrightarrow>
      readString_loop (patch k y l) = Some (fst (b, r), patch k y (snd (b, r))) \<and>
      passed k (snd (b, r))"
  proof (rule readString_loop.raw_induct
      [where P = "\<lambda>l br. passed k l \<longrightarrow>
          readString_loop (patch k y l) = Some (fst br, patch k y (snd br)) \<and> passed k (snd br)",
        OF _ assms(1)])
    fix f l br
    assume IH: "\<And>x z. f x = Some z \<Longrightarrow>
        passed k x \<longrightarrow>
        readString_loop (patch k y x) = Some (fst z, patch k y (snd z)) \<and> passed k (snd z)"
      and body: "(if ch l \<noteq> CHR 0x22
                  then if ch l = CHR 0x0A then Some (True, l) else f (readChar l)
                  else Some (False, l)) = Some br"
    show "passed k l \<longrightarrow>
        readString_loop (patch k y l) = Some (fst br, patch k y (snd br)) \<and> passed k (snd br)"
    proof
      assume p: "passed k l"
      show "readString_loop (patch k y l) = Some (fst br, patch k y (snd br)) \<and> passed k (snd br)"
      proof (cases "ch l \<noteq> CHR 0x22 \<and> ch l \<noteq> CHR 0x0A")
        case True
        with body have "f (readChar l) = Some br" by simp
        from IH [OF this] p True show ?thesis
          by (simp add: readString_loop.simps [of "patch k y l"] readChar_patch passed_readChar)
      next
        case False
        with body p show ?thesis
          by (auto simp: readString_loop.simps [of "patch k y l"] split: if_splits)
      qed
    qed
  qed
  with assms(2) show ?thesis by simp
qed

lemma readLineComment_patch:
  assumes "passed k l"
  shows "readLineComment (patch k y l) =
           map_option (map_sum id (map_prod id (patch k y))) (readLineComment l)"
    and "readLineComment l = Some (Inr (s, l')) \<Longrightarrow> passed k l'"
proof -
  have loop: "readLineComment_loop (patch k y l) = map_option (patch k y) (readLineComment_loop l)"
    using assms by (intro patch_both_ways [where g = "patch k"]) (simp_all add: readLineComment_loop_forward)
  from assms have "k < position l" by (simp add: passed_def)
  then show "readLineComment (patch k y l) =
           map_option (map_sum id (map_prod id (patch k y))) (readLineComment l)"
    by (simp add: readLineComment_def loop go_slice_patch split: option.split sum.split)
  show "passed k l'" if "readLineComment l = Some (Inr (s, l'))"
    using that assms readLineComment_loop_forward [of l _ k y]
    by (auto simp: readLineComment_def split: option.splits sum.splits)
qed

lemma readBlockComment_patch:
  assumes "passed k l"
  shows "readBlockComment (patch k y l) =
           map_option (map_sum id (map_prod id (patch k y))) (readBlockComment l)"
    and "readBlockComment l = Some (Inr (s, l')) \<Longrightarrow> passed k l'"
proof -
  have loop: "readBlockComment_loop (patch k y l) = map_option (patch k y) (readBlockComment_loop l)"
    using assms by (intro patch_both_ways [where g = "patch k"]) (simp_all add: readBlockComment_loop_forward)
  have after: "passed k r \<and> readChar (readChar (patch k y r)) = patch k y (readChar (readChar r))"
    if "readBlockComment_loop l = Some r" for r
    using that assms readBlockComment_loop_forward [of l r k y]
    by (simp add: readChar_patch passed_readChar)
  from assms have "k < position l" by (simp add: passed_def)
  then show "readBlockComment (patch k y l) =
           map_option (map_sum id (map_prod id (patch k y))) (readBlockComment l)"
    by (auto simp: readBlockComment_def loop after go_slice_patch Let_def split: option.split sum.split)
  show "passed k l'" if "readBlockComment l = Some (Inr (s, l'))"
    using that after by (auto simp: readBlockComment_def Let_def passed_readChar split: option.splits sum.splits)
qed

lemma readString_patch:
  assumes "passed k l"
  shows "readString (patch k y l) =
           map_option (map_sum id (map_prod id (map_prod id (patch k y)))) (readString l)"
    and "readString l = Some (Inr (s, e, l')) \<Longrightarrow> passed k l'"
proof -
  from assms have p: "passed k (readChar l)" by (rule passed_readChar)
  have "readString_loop (patch k y (readChar l)) =
      map_option (map_prod id (patch k y)) (readString_loop (readChar l))"
    using p
    by (intro patch_both_ways [where g = "\<lambda>y. map_prod id (patch k y)"])
       (auto simp: readString_loop_forward)
  with assms have loop: "readString_loop (readChar (patch k y l)) =
      map_option (map_prod id (patch k y)) (readString_loop (readChar l))"
    by (simp add: readChar_patch)
  from assms have "k < position l + 1" by (simp add: passed_def)
  then show "readString (patch k y l) =
           map_option (map_sum id (map_prod id (map_prod id (patch k y)))) (readString l)"
    by (simp add: readString_def loop go_slice_patch split: option.split sum.split prod.split)
  show "passed k l'" if "readString l = Some (Inr (s, e, l'))"
    using that p readString_loop_forward [of "readChar l" _ _ k y]
    by (auto simp: readString_def split: option.splits sum.splits prod.splits)
qed

lemma readIdentifier_patch:
  assumes "passed k l"
  shows "readIdentifier (patch k y l) = map_sum id (map_prod id (patch k y)) (readIdentifier l)"
    and "readIdentifier l = Inr (s, l') \<Longrightarrow> passed k l'"
proof -
  from assms have "k < position l" by (simp add: passed_def)
  with assms show "readIdentifier (patch k y l) = map_sum id (map_prod id (patch k y)) (readIdentifier l)"
    by (simp add: readIdentifier_def readIdentifier_loop_patch go_slice_patch Let_def split: sum.split)
  show "passed k l'" if "readIdentifier l = Inr (s, l')"
    using that assms by (auto simp: readIdentifier_def readIdentifier_loop_patch Let_def split: sum.splits)
qed

lemma readNumber_patch:
  assumes "passed k l"
  shows "readNumber (patch k y l) = map_sum id (map_prod id (patch k y)) (readNumber l)"
    and "readNumber l = Inr (s, l') \<Longrightarrow> passed k l'"
proof -
  from assms have "k < position l" by (simp add: passed_def)
  with assms show "readNumber (patch k y l) = map_sum id (map_prod id (patch k y)) (readNumber l)"
    by (simp add: readNumber_def readNumber_loop_patch go_slice_patch Let_def split: sum.split)
  show "passed k l'" if "readNumber l = Inr (s, l')"
    using that assms by (auto simp: readNumber_def readNumber_loop_patch Let_def split: sum.splits)
qed

lemma twoCharToken_patch:
  "passed k l \<Longrightarrow> twoCharToken ty (patch k y l) = map_prod id (patch k y) (twoCharToken ty l)"
  by (simp add: twoCharToken_def Let_def readChar_patch)

lemma switchToken_patch:
  assumes "passed k l"
  shows "switchToken (patch k y l) =
           map_option (map_sum id (map_prod id (map_prod id (patch k y)))) (switchToken l)"
proof -
  let ?m = "map_option (map_sum id (map_prod id (map_prod id (patch k y))))"
  have lc: "(case readLineComment (patch k y l) of
              None \<Rightarrow> None
            | Some (Inl e) \<Rightarrow> Some (Inl e)
            | Some (Inr (literal, l')) \<Rightarrow>
                Some (Inr (False, \<lparr>Type = COMMENT, Literal = literal, Line = line l',
                                   Position = tokenPosition l'\<rparr>, l'))) =
        ?m (case readLineComment l of
              None \<Rightarrow> None
            | Some (Inl e) \<Rightarrow> Some (Inl e)
            | Some (Inr (literal, l')) \<Rightarrow>
                Some (Inr (False, \<lparr>Type = COMMENT, Literal = literal, Line = line l',
                                   Position = tokenPosition l'\<rparr>, l')))"
    by (simp add: readLineComment_patch(1) [OF assms] split: option.split sum.split prod.split)
  have bc: "(case readBlockComment (patch k y l) of
              None \<Rightarrow> None
            | Some (Inl e) \<Rightarrow> Some (Inl e)
            | Some (Inr (literal, l')) \<Rightarrow>
                Some (Inr (False, \<lparr>Type = COMMENT, Literal = literal, Line = line l',
                                   Position = tokenPosition l'\<rparr>, l'))) =
        ?m (case readBlockComment l of
              None \<Rightarrow> None
            | Some (Inl e) \<Rightarrow> Some (Inl e)
            | Some (Inr (literal, l')) \<Rightarrow>
                Some (Inr (False, \<lparr>Type = COMMENT, Literal = literal, Line = line l',
                                   Position = tokenPosition l'\<rparr>, l')))"
    by (simp add: readBlockComment_patch(1) [OF assms] split: option.split sum.split prod.split)
  have st: "(case readString (patch k y l) of
           None \<Rightarrow> None
         | Some (Inl e) \<Rightarrow> Some (Inl e)
         | Some (Inr (literal, err, l1)) \<Rightarrow>
             Some (Inr (False,
                \<lparr>Type = STRING, Literal = literal,
                 Line = line (case err of None \<Rightarrow> l1 | Some msg \<Rightarrow> addError l1 msg),
                 Position = tokenPosition (case err of None \<Rightarrow> l1 | Some msg \<Rightarrow> addError l1 msg)\<rparr>,
                case err of None \<Rightarrow> l1 | Some msg \<Rightarrow> addError l1 msg))) =
        ?m (case readString l of
           None \<Rightarrow> None
         | Some (Inl e) \<Rightarrow> Some (Inl e)
         | Some (Inr (literal, err, l1)) \<Rightarrow>
             Some (Inr (False,
                \<lparr>Type = STRING, Literal = literal,
                 Line = line (case err of None \<Rightarrow> l1 | Some msg \<Rightarrow> addError l1 msg),
                 Position = tokenPosition (case err of None \<Rightarrow> l1 | Some msg \<Rightarrow> addError l1 msg)\<rparr>,
                case err of None \<Rightarrow> l1 | Some msg \<Rightarrow> addError l1 msg)))"
    by (auto simp: readString_patch(1) [OF assms] addError_patch
          split: option.split sum.split prod.split)
  have idt: "(case readIdentifier (patch k y l) of
           Inl e \<Rightarrow> Some (Inl e)
         | Inr (literal, l') \<Rightarrow>
             Some (Inr (True, \<lparr>Type = lookupIdent literal, Literal = literal, Line = line l',
                               Position = tokenPosition l'\<rparr>, l'))) =
        ?m (case readIdentifier l of
           Inl e \<Rightarrow> Some (Inl e)
         | Inr (literal, l') \<Rightarrow>
             Some (Inr (True, \<lparr>Type = lookupIdent literal, Literal = literal, Line = line l',
                               Position = tokenPosition l'\<rparr>, l')))"
    by (simp add: readIdentifier_patch(1) [OF assms] split: sum.split prod.split)
  have num: "(case readNumber (patch k y l) of
           Inl e \<Rightarrow> Some (Inl e)
         | Inr (literal, l') \<Rightarrow>
             Some (Inr (True, \<lparr>Type = INT_tok, Literal = literal, Line = line l',
                               Position = tokenPosition l'\<rparr>, l'))) =
        ?m (case readNumber l of
           Inl e \<Rightarrow> Some (Inl e)
         | Inr (literal, l') \<Rightarrow>
             Some (Inr (True, \<lparr>Type = INT_tok, Literal = literal, Line = line l',
                               Position = tokenPosition l'\<rparr>, l')))"
    by (simp add: readNumber_patch(1) [OF assms] split: sum.split prod.split)
  show ?thesis
    unfolding switchToken_def Let_def patch_fields peekChar_patch [OF assms]
      twoCharToken_patch [OF assms] lc bc st idt num
    by (simp add: if_distrib [of ?m])
qed

lemma switchToken_passed:
  assumes "passed k l" and "switchToken l = Some (Inr (r, tok, l'))"
  shows "passed k l'"
  using assms(2) assms(1) readLineComment_patch(2) [OF assms(1)] readBlockComment_patch(2) [OF assms(1)]
    readString_patch(2) [OF assms(1)] readIdentifier_patch(2) [OF assms(1)]
    readNumber_patch(2) [OF assms(1)]
  by (auto simp: switchToken_def Let_def twoCharToken_def passed_readChar
        split: if_splits option.splits sum.splits prod.splits)

lemma newlineStep_patch:
  "passed k l \<Longrightarrow>
   newlineStep (patch k y l) = patch k y (newlineStep l) \<and> passed k (newlineStep l)"
  using skipWhitespace_patch [of k "readChar (l\<lparr>line := line l + 1\<rparr>)" y]
  by (simp add: newlineStep_def readChar_patch passed_readChar)

lemma NextToken_loop_patch:
  "passed k l \<Longrightarrow>
   NextToken_loop (patch k y l) =
     map_option (map_sum id (map_prod id (patch k y))) (NextToken_loop l)"
proof (induction l rule: NextToken_loop.induct)
  case (1 l)
  show ?case
  proof (cases "ch l = CHR 0x0A")
    case True
    with "1.IH" "1.prems" show ?thesis
      by (simp add: NextToken_loop.simps [of l] NextToken_loop.simps [of "patch k y l"]
            newlineStep_patch)
  next
    case False
    have "passed k l'" if "switchToken l = Some (Inr (r, tok, l'))" for r tok l'
      using "1.prems" that by (rule switchToken_passed)
    with False "1.prems" show ?thesis
      by (auto simp: NextToken_loop.simps [of l] NextToken_loop.simps [of "patch k y l"]
            switchToken_patch readChar_patch split: option.split sum.split)
  qed
qed

lemma NextToken_loop_passed:
  "passed k l \<Longrightarrow> NextToken_loop l = Some (Inr (tok, l')) \<Longrightarrow> passed k l'"
proof (induction l rule: NextToken_loop.induct)
  case (1 l)
  show ?case
  proof (cases "ch l = CHR 0x0A")
    case True
    with "1.prems" have "NextToken_loop (newlineStep l) = Some (Inr (tok, l'))"
      by (simp add: NextToken_loop.simps [of l])
    with True "1.prems" show ?thesis
      by (intro "1.IH") (simp_all add: newlineStep_patch)
  next
    case False
    with "1.prems" obtain r l1 where sw: "switchToken l = Some (Inr (r, tok, l1))"
      and l': "l' = (if r then l1 else readChar l1)"
      by (auto simp: NextToken_loop.simps [of l] split: option.splits sum.splits)
    from "1.prems"(1) sw have "passed k l1" by (rule switchToken_passed)
    with l' show ?thesis by (simp add: passed_readChar)
  qed
qed

lemma NextToken_patch:
  assumes "passed k l"
  shows "NextToken (patch k y l) = map_option (map_sum id (map_prod id (patch k y))) (NextToken l)"
    and "NextToken l = Some (Inr (tok, l')) \<Longrightarrow> passed k l'"
proof -
  from assms have s: "skipWhitespace (patch k y l) = patch k y (skipWhitespace l)"
    and p: "passed k (skipWhitespace l)"
    by (simp_all add: skipWhitespace_patch)
  from p show "NextToken (patch k y l) = map_option (map_sum id (map_prod id (patch k y))) (NextToken l)"
    by (simp add: NextToken_def s NextToken_loop_patch)
  show "passed k l'" if "NextToken l = Some (Inr (tok, l'))"
    using p that unfolding NextToken_def by (rule NextToken_loop_passed)
qed

lemma Tokens_loop_forward:
  assumes "Tokens_loop acc l = Some r" and "passed k l"
  shows "Tokens_loop acc (patch k y l) = Some (map_sum id (map_prod id (patch k y)) r)"
proof -
  have "passed k l \<longrightarrow>
      Tokens_loop acc (patch k y l) = Some (map_sum id (map_prod id (patch k y)) r)"
  proof (rule Tokens_loop.raw_induct
      [where P = "\<lambda>acc l r. passed k l \<longrightarrow>
          Tokens_loop acc (patch k y l) = Some (map_sum id (map_prod id (patch k y)) r)",
        OF _ assms(1)], intro impI)
    fix f acc l r
    assume IH: "\<And>a b z. f a b = Some z \<Longrightarrow>
        passed k b \<longrightarrow> Tokens_loop a (patch k y b) = Some (map_sum id (map_prod id (patch k y)) z)"
      and body: "(case NextToken l of
                    None \<Rightarrow> None
                  | Some (Inl e) \<Rightarrow> Some (Inl e)
                  | Some (Inr (tok, l')) \<Rightarrow>
                      if Type tok = EOF then Some (Inr (acc @ [tok], l'))
                      else f (acc @ [tok]) l') = Some r"
      and p: "passed k l"
    show "Tokens_loop acc (patch k y l) = Some (map_sum id (map_prod id (patch k y)) r)"
    proof (cases "NextToken l")
      case None
      with body show ?thesis by simp
    next
      case (Some res)
      show ?thesis
      proof (cases res)
        case (Inl e)
        with Some body p show ?thesis
          by (auto simp: Tokens_loop.simps [of acc "patch k y l"] NextToken_patch(1))
      next
        case (Inr tl)
        obtain tok l' where tl: "tl = (tok, l')" by (cases tl)
        from p Some Inr tl have p': "passed k l'"
          by (auto intro: NextToken_patch(2))
        show ?thesis
        proof (cases "Type tok = EOF")
          case True
          with Some Inr tl body p show ?thesis
            by (auto simp: Tokens_loop.simps [of acc "patch k y l"] NextToken_patch(1))
        next
          case False
          with Some Inr tl body have "f (acc @ [tok]) l' = Some r" by simp
          from IH [OF this] p' False Some Inr tl p show ?thesis
            by (simp add: Tokens_loop.simps [of acc "patch k y l"] NextToken_patch(1))
        qed
      qed
    qed
  qed
  with assms(2) show ?thesis by simp
qed

lemma Tokens_patch:
  assumes "passed k l"
  shows "Tokens_loop acc (patch k y l) =
           map_option (map_sum id (map_prod id (patch k y))) (Tokens_loop acc l)"
  using assms
  by (intro patch_both_ways [where g = "\<lambda>y. map_sum id (map_prod id (patch k y))"])
     (simp_all add: Tokens_loop_forward)

lemma cursorAt_patch:
  "k \<noteq> a \<Longrightarrow> cursorAt (patch k y l) a ln tp = patch k y (cursorAt l a ln tp)"
  by (simp add: cursorAt_def patch_def)

lemma NextToken_block_comment:
  assumes wf: "wellFormed l" and slash: "ch l = CHR ''/''" and star: "peekChar l = CHR ''*''"
    and content: "drop (position l) (input l) = body @ ''*/'' @ rest"
    and nc: "noClose (body @ ''*'')"
  shows "NextToken l =
       Some (Inr (\<lparr>Type = COMMENT, Literal = body @ ''*/'',
                   Line = line l + count_list body (CHR 0x0A),
                   Position = tokenPosition l + length body + 2\<rparr>,
                  cursorAt l (position l + length body + 3)
                    (line l + count_list body (CHR 0x0A)) (tokenPosition l + length body + 3)))"
proof -
  from slash have start: "\<not> isSpace (ch l)" "ch l \<noteq> CHR 0x0A"
    by (simp_all add: isSpace_def)
  have "readBlockComment l =
      Some (Inr (body @ ''*/'',
                 cursorAt l (position l + length body + 2)
                   (line l + count_list body (CHR 0x0A)) (tokenPosition l + length body + 2)))"
    using wf content nc by (rule readBlockComment_finds)
  with slash star have "switchToken l =
      Some (Inr (False, \<lparr>Type = COMMENT, Literal = body @ ''*/'',
                         Line = line l + count_list body (CHR 0x0A),
                         Position = tokenPosition l + length body + 2\<rparr>,
                 cursorAt l (position l + length body + 2)
                   (line l + count_list body (CHR 0x0A)) (tokenPosition l + length body + 2)))"
    by (simp add: switchToken_def)
  then show ?thesis
    by (simp add: NextToken_at_token_start [OF start] numeral_3_eq_3)
qed

text \<open>
  C10. On a well-formed lexer at the start of a block comment whose text up to the first
  terminator is \<open>body @ ''*/''\<close>, with a byte \<open>x\<close> right after the terminator,
  \<^verbatim>\<open>NextToken\<close> returns the \<^verbatim>\<open>COMMENT\<close> token with literal \<open>body @ ''*/''\<close> and leaves the
  cursor one byte beyond \<open>x\<close>: \<^verbatim>\<open>readBlockComment\<close> has already stepped over both bytes
  of the terminator when the \<^verbatim>\<open>readChar\<close> that ends \<^verbatim>\<open>NextToken\<close> steps over \<open>x\<close>. The
  next token starts from the first byte of \<open>rest\<close>. The byte \<open>x\<close> is never examined:
  with any byte \<open>y\<close> in its place, \<^verbatim>\<open>Tokens\<close> returns the same tokens, the same errors and
  the same final cursor (or, like the original, does not return, or panics).
\<close>

theorem byte_after_block_comment_is_skipped:
  "wellFormed l \<and> ch l = CHR ''/'' \<and> peekChar l = CHR ''*'' \<and>
   drop (position l) (input l) = body @ ''*/'' @ x # rest \<and> noClose (body @ ''*'') \<longrightarrow>
     NextToken l =
       Some (Inr (\<lparr>Type = COMMENT, Literal = body @ ''*/'',
                   Line = line l + count_list body (CHR 0x0A),
                   Position = tokenPosition l + length body + 2\<rparr>,
                  cursorAt l (position l + length body + 3)
                    (line l + count_list body (CHR 0x0A)) (tokenPosition l + length body + 3))) \<and>
     input l ! (position l + length body + 2) = x \<and>
     drop (position l + length body + 3) (input l) = rest \<and>
     Tokens (patch (position l + length body + 2) y l) =
       map_option (map_sum id (map_prod id (patch (position l + length body + 2) y))) (Tokens l)"
proof (intro impI, elim conjE, intro conjI)
  assume wf: "wellFormed l" and slash: "ch l = CHR ''/''" and star: "peekChar l = CHR ''*''"
    and content: "drop (position l) (input l) = body @ ''*/'' @ x # rest"
    and nc: "noClose (body @ ''*'')"
  let ?k = "position l + length body + 2"
  let ?tok = "\<lparr>Type = COMMENT, Literal = body @ ''*/'',
               Line = line l + count_list body (CHR 0x0A),
               Position = tokenPosition l + length body + 2\<rparr>"
  let ?l' = "cursorAt l (position l + length body + 3)
               (line l + count_list body (CHR 0x0A)) (tokenPosition l + length body + 3)"
  show first: "NextToken l = Some (Inr (?tok, ?l'))"
    using wf slash star content nc by (rule NextToken_block_comment)
  have "drop ?k (input l) = drop (length body + 2) (drop (position l) (input l))"
    by (simp add: add.commute add.left_commute)
  then have "drop ?k (input l) = x # rest"
    by (simp add: content)
  then show "input l ! ?k = x" and "drop (position l + length body + 3) (input l) = rest"
    using drop_eq_Cons [of ?k "input l" x rest]
    by (simp_all add: numeral_3_eq_3)
  have rp: "readPosition l = position l + 1"
    using wf by (simp add: wellFormed_def)
  have "wellFormed (patch ?k y l)"
    using wf by (simp add: wellFormed_def)
  moreover have "ch (patch ?k y l) = CHR ''/''"
    using slash by simp
  moreover have "peekChar (patch ?k y l) = CHR ''*''"
  proof -
    have "(input l)[?k := y] ! readPosition l = input l ! readPosition l"
      using rp by simp
    then have "peekChar (patch ?k y l) = peekChar l"
      by (simp add: peekChar_def)
    with star show ?thesis by simp
  qed
  moreover have "drop (position (patch ?k y l)) (input (patch ?k y l)) = body @ ''*/'' @ y # rest"
  proof -
    have "drop (position l) ((input l)[?k := y]) = (drop (position l) (input l))[length body + 2 := y]"
      by (simp add: drop_update_swap)
    also have "\<dots> = body @ ''*/'' @ y # rest"
      by (simp add: content list_update_append)
    finally show ?thesis by simp
  qed
  ultimately have "NextToken (patch ?k y l) =
       Some (Inr (\<lparr>Type = COMMENT, Literal = body @ ''*/'',
                   Line = line (patch ?k y l) + count_list body (CHR 0x0A),
                   Position = tokenPosition (patch ?k y l) + length body + 2\<rparr>,
                  cursorAt (patch ?k y l) (position (patch ?k y l) + length body + 3)
                    (line (patch ?k y l) + count_list body (CHR 0x0A))
                    (tokenPosition (patch ?k y l) + length body + 3)))"
    using nc by (rule NextToken_block_comment)
  then have second: "NextToken (patch ?k y l) = Some (Inr (?tok, patch ?k y ?l'))"
    by (simp add: cursorAt_patch)
  define k where "k = position l + length body + 2"
  define tok where "tok = ?tok"
  define l' where "l' = ?l'"
  have first': "NextToken l = Some (Inr (tok, l'))"
    using first by (simp add: tok_def l'_def)
  have second': "NextToken (patch k y l) = Some (Inr (tok, patch k y l'))"
    using second by (simp add: k_def tok_def l'_def)
  have no_eof: "Type tok \<noteq> EOF"
    by (simp add: tok_def tok_defs)
  have "passed k l'"
    by (simp add: passed_def k_def l'_def)
  then have "Tokens_loop [tok] (patch k y l') =
      map_option (map_sum id (map_prod id (patch k y))) (Tokens_loop [tok] l')"
    by (rule Tokens_patch)
  moreover have "Tokens l = Tokens_loop [tok] l'"
    by (simp add: Tokens_def Tokens_loop.simps [of "[]" l] first' no_eof)
  moreover have "Tokens (patch k y l) = Tokens_loop [tok] (patch k y l')"
    by (simp add: Tokens_def Tokens_loop.simps [of "[]" "patch k y l"] second' no_eof)
  ultimately have "Tokens (patch k y l) =
      map_option (map_sum id (map_prod id (patch k y))) (Tokens l)"
    by simp
  then show "Tokens (patch ?k y l) =
       map_option (map_sum id (map_prod id (patch ?k y))) (Tokens l)"
    by (simp only: k_def)
qed

theorem byte_after_block_comment_is_skipped_witness:
  "wellFormed (NewLexer ''/* c */xy'') \<and> ch (NewLexer ''/* c */xy'') = CHR ''/'' \<and>
   peekChar (NewLexer ''/* c */xy'') = CHR ''*'' \<and>
   drop (position (NewLexer ''/* c */xy'')) (input (NewLexer ''/* c */xy'')) =
     ''/* c '' @ ''*/'' @ CHR ''x'' # ''y'' \<and>
   noClose (''/* c '' @ ''*'') \<and>
   NextToken (NewLexer ''/* c */xy'') =
     Some (Inr (\<lparr>Type = COMMENT, Literal = ''/* c */'', Line = 1, Position = 8\<rparr>,
                cursorAt (NewLexer ''/* c */xy'') 8 1 9)) \<and>
   ch (cursorAt (NewLexer ''/* c */xy'') 8 1 9) = CHR ''y'' \<and>
   Tokens (patch 7 (CHR ''+'') (NewLexer ''/* c */xy'')) =
     map_option (map_sum id (map_prod id (patch 7 (CHR ''+'')))) (Tokens (NewLexer ''/* c */xy''))"
proof -
  have h: "wellFormed (NewLexer ''/* c */xy'')" "ch (NewLexer ''/* c */xy'') = CHR ''/''"
    "peekChar (NewLexer ''/* c */xy'') = CHR ''*''"
    "drop (position (NewLexer ''/* c */xy'')) (input (NewLexer ''/* c */xy'')) =
       ''/* c '' @ ''*/'' @ CHR ''x'' # ''y''"
    "noClose (''/* c '' @ ''*'')"
    by (simp_all add: NewLexer_def peekChar_def)
  have fields: "line (NewLexer ''/* c */xy'') = 1" "tokenPosition (NewLexer ''/* c */xy'') = 1"
    "position (NewLexer ''/* c */xy'') = 0" "input (NewLexer ''/* c */xy'') = ''/* c */xy''"
    by (simp_all add: NewLexer_def)
  note inst = byte_after_block_comment_is_skipped
    [of "NewLexer ''/* c */xy''" "''/* c ''" "CHR ''x''" "''y''" "CHR ''+''"]
  from inst h
  have "NextToken (NewLexer ''/* c */xy'') =
     Some (Inr (\<lparr>Type = COMMENT, Literal = ''/* c '' @ ''*/'',
                 Line = line (NewLexer ''/* c */xy'') + count_list ''/* c '' (CHR 0x0A),
                 Position = tokenPosition (NewLexer ''/* c */xy'') + length ''/* c '' + 2\<rparr>,
                cursorAt (NewLexer ''/* c */xy'') (position (NewLexer ''/* c */xy'') + length ''/* c '' + 3)
                  (line (NewLexer ''/* c */xy'') + count_list ''/* c '' (CHR 0x0A))
                  (tokenPosition (NewLexer ''/* c */xy'') + length ''/* c '' + 3)))"
    by blast
  then have token: "NextToken (NewLexer ''/* c */xy'') =
     Some (Inr (\<lparr>Type = COMMENT, Literal = ''/* c */'', Line = 1, Position = 8\<rparr>,
                cursorAt (NewLexer ''/* c */xy'') 8 1 9))"
    by (simp add: fields)
  from inst h
  have "Tokens (patch (position (NewLexer ''/* c */xy'') + length ''/* c '' + 2) (CHR ''+'')
          (NewLexer ''/* c */xy'')) =
     map_option (map_sum id (map_prod id
         (patch (position (NewLexer ''/* c */xy'') + length ''/* c '' + 2) (CHR ''+''))))
       (Tokens (NewLexer ''/* c */xy''))"
    by blast
  moreover have "position (NewLexer ''/* c */xy'') + length ''/* c '' + 2 = 7"
    by (simp add: fields)
  ultimately have "Tokens (patch 7 (CHR ''+'') (NewLexer ''/* c */xy'')) =
     map_option (map_sum id (map_prod id (patch 7 (CHR ''+'')))) (Tokens (NewLexer ''/* c */xy''))"
    by (simp only:)
  with token show ?thesis
    using h by (simp add: fields)
qed

end
